theory Spec2Isabelle
  imports Main "HOL-Library.Word" "HOL-Library.AList" "HOL-Library.Sublist"
begin

section \<open>Registers, facets and IR values\<close>

text \<open>
  The lifter works on symbolic IR values. A value of the IR toolkit is a term that says
  how it was built: a constant, a select, an argument of the native function, or the
  result of one call of the instruction builder. Two values are the same when they were
  built the same way.
\<close>

text \<open>
  Modelled from the spec: the register classes (section 3: instruction pointer, general
  purpose registers, flag bits, vector registers). Their declaration is in a header that
  is not among the sources; \<open>callconv.cc\<close> names \<open>LL_RT_IP\<close> and \<open>LL_RT_GP64\<close>.
\<close>

datatype LLRegType = LL_RT_IP | LL_RT_GP64 | LL_RT_EFLAGS | LL_RT_XMM

datatype LLReg = LLReg LLRegType nat

text \<open>
  Modelled from the spec: a facet is a typed view of a register, a bit width with an
  integer or a vector interpretation (section 3). The declaration is not among the
  sources.
\<close>

datatype Facet = IntFacet nat | VecFacet nat

fun facet_bits :: "Facet \<Rightarrow> nat" where
  "facet_bits (IntFacet w) = w"
| "facet_bits (VecFacet w) = w"

text \<open>Identity of a basic block object: the two synthetic blocks, or the block that
  the block map owns for an address.\<close>

datatype blockref = EntryBlock | ExitBlock | AddrBlock "64 word"

datatype llvm_type =
    VoidTy
  | Int8PtrTy
  | Int64Ty
  | StructTy "llvm_type list"
  | FacetPtrTy Facet

text \<open>\<open>llvm::FunctionType::get(ret, params, false)\<close>: return type and parameter types.\<close>

type_synonym llvm_function_type = "llvm_type \<times> llvm_type list"

datatype llvm_value =
    ConstantInt "64 word"
  | SelectInst llvm_value llvm_value llvm_value
  | LlvmFunction llvm_type "llvm_type list"
  | Argument nat
  | UndefValue llvm_type
  | ConstGEP1_64 llvm_value nat
  | PointerCast llvm_value llvm_type
  | LoadInst llvm_value
  | StoreInst llvm_value llvm_value
  | InsertValue llvm_value llvm_value nat
  | ReturnInst "llvm_value option"
  | PHINode blockref LLReg Facet
  | OtherValue nat

text \<open>
  \<open>ConstantInt a\<close> is a constant of the 64-bit instruction pointer type, \<open>a\<close> what
  \<open>getZExtValue\<close> reads from it. \<open>SelectInst c t f\<close> has condition \<open>c\<close>, true value
  \<open>t\<close> and false value \<open>f\<close>. \<open>LlvmFunction ret params\<close> is a native function with its
  return and parameter types; \<open>Argument i\<close> is its \<open>i\<close>-th argument.
  \<open>PHINode b reg facet\<close> is the merge placeholder of block \<open>b\<close> for a register facet.
\<close>

datatype error = NullPointerDereference | ArgumentOutOfRange | IndeterminateValue | ContractViolation

section \<open>Register file\<close>

record RegFile =
  insert_block_id :: blockref
  insert_block :: "llvm_value list"
  reg_values :: "LLReg \<times> Facet \<Rightarrow> llvm_value option"
  empty_phis :: "(LLReg \<times> Facet) list"

text \<open>
  \<open>insert_block\<close> is the instruction list of the block that \<open>GetInsertBlock\<close> returns:
  an instruction builder on it appends at the end.
\<close>

text \<open>The register file of a new block: no instruction, no value, no placeholder.\<close>

definition RegFile_new :: "blockref \<Rightarrow> RegFile" where
  "RegFile_new ident =
     \<lparr>insert_block_id = ident, insert_block = [], reg_values = (\<lambda>key. None),
      empty_phis = []\<rparr>"

definition emit :: "llvm_value \<Rightarrow> RegFile \<Rightarrow> RegFile" where
  "emit inst rf = rf\<lparr>insert_block := insert_block rf @ [inst]\<rparr>"

text \<open>
  Modelled from the spec: \<open>RegFile::GetReg\<close> and \<open>RegFile::SetReg\<close> (the register file is
  not among the sources). Section 4.1: a read returns the most recent local write of the
  facet if there is one; otherwise it creates a merge placeholder scoped to the owning
  block, records it for later resolution, and the placeholder is from then on the
  current value (at most one unresolved placeholder per register facet and block). A
  write records the value as current for the register facet and invalidates every
  narrower cached facet of the same register. The callers in \<open>callconv.cc\<close> read and
  write the facet of the table entry, so a compatible facet is the facet itself here.
  The last argument of \<open>SetReg\<close> is declared in the missing header; the spec describes
  one write.
\<close>

definition GetReg :: "RegFile \<Rightarrow> LLReg \<Rightarrow> Facet \<Rightarrow> llvm_value \<times> RegFile" where
  "GetReg rf reg facet =
     (case reg_values rf (reg, facet) of
        Some v \<Rightarrow> (v, rf)
      | None \<Rightarrow>
          (let phi = PHINode (insert_block_id rf) reg facet
           in (phi, rf\<lparr>reg_values := (reg_values rf)((reg, facet) \<mapsto> phi),
                       empty_phis := empty_phis rf @ [(reg, facet)]\<rparr>)))"

definition SetReg :: "RegFile \<Rightarrow> LLReg \<Rightarrow> Facet \<Rightarrow> llvm_value \<Rightarrow> bool \<Rightarrow> RegFile" where
  "SetReg rf reg facet v clear_facets =
     rf\<lparr>reg_values :=
          (\<lambda>k. if fst k = reg \<and> facet_bits (snd k) < facet_bits facet then None
               else reg_values rf k)((reg, facet) \<mapsto> v)\<rparr>"

section \<open>Calling convention (callconv.cc)\<close>

text \<open>
  Modelled from the spec: the conventions (section 4.4: two supported variants, the
  state-pointer convention \<open>SPTR\<close> and the fixed-physical-register convention \<open>HHVM\<close>).
  The enumeration is declared in a header that is not among the sources. The code
  switches on \<open>SPTR\<close> and \<open>HHVM\<close> and has a \<open>default\<close> arm; \<open>UNKNOWN n\<close> stands for
  every other value of the enumeration.
\<close>

datatype CallConv = SPTR | HHVM | UNKNOWN nat

datatype CallingConvID = CallingConv_C | CallingConv_HHVM

definition FnType :: "CallConv \<Rightarrow> llvm_function_type option" where
  "FnType cc =
     (let void_ty = VoidTy; i8p = Int8PtrTy; i64 = Int64Ty
      in case cc of
           SPTR \<Rightarrow> Some (void_ty, [i8p])
         | HHVM \<Rightarrow>
             (let ret_ty = StructTy [i64, i64, i64, i64, i64, i64, i64,
                                     i64, i64, i64, i64, i64, i64, i64]
              in Some (ret_ty, [i64, i8p, i64, i64, i64, i64,
                                i64, i64, i64, i64, i64, i64,
                                i64, i64]))
         | UNKNOWN n \<Rightarrow> None)"

definition FnCallConv :: "CallConv \<Rightarrow> CallingConvID" where
  "FnCallConv cc =
     (case cc of
        SPTR \<Rightarrow> CallingConv_C
      | HHVM \<Rightarrow> CallingConv_HHVM
      | UNKNOWN n \<Rightarrow> CallingConv_C)"

definition CpuStructParamIdx :: "CallConv \<Rightarrow> nat" where
  "CpuStructParamIdx cc =
     (case cc of
        SPTR \<Rightarrow> 0
      | HHVM \<Rightarrow> 1
      | UNKNOWN n \<Rightarrow> 0)"

text \<open>An entry of \<open>cpu_struct_entries\<close>: byte offset, register, facet.\<close>

type_synonym cpu_struct_entry = "nat \<times> LLReg \<times> Facet"

text \<open>
  Modelled from the spec: the table \<open>cpu_struct_entries\<close> is filled from an include file
  that is not among the sources. Section 6 gives the layout (instruction pointer, the
  general purpose registers, a block of single-byte flags, the vector registers); the
  offsets are those of the CPU structure of the test driver: the instruction pointer at
  0, sixteen general purpose registers of 8 bytes from 8, six flag bytes from 0x88,
  sixteen vector registers of 16 bytes from 0x90. \<open>Pack\<close> and \<open>Unpack\<close> below take the
  table as an argument.
\<close>

definition cpu_struct_entries :: "cpu_struct_entry list" where
  "cpu_struct_entries =
     [(0, LLReg LL_RT_IP 0, IntFacet 64)]
     @ map (\<lambda>i. (8 + 8 * i, LLReg LL_RT_GP64 i, IntFacet 64)) [0..<16]
     @ map (\<lambda>i. (136 + i, LLReg LL_RT_EFLAGS i, IntFacet 1)) [0..<6]
     @ map (\<lambda>i. (144 + 16 * i, LLReg LL_RT_XMM i, VecFacet 128)) [0..<16]"

text \<open>\<open>dyn_cast<llvm::ConstantInt>(addr)\<close> with \<open>getZExtValue\<close>, and
  \<open>dyn_cast<llvm::SelectInst>(next_rip)\<close> with the condition, the true value and the
  false value: the cast value, or null.\<close>

definition dyn_cast_ConstantInt :: "llvm_value \<Rightarrow> 64 word option" where
  "dyn_cast_ConstantInt v = (case v of ConstantInt a \<Rightarrow> Some a | _ \<Rightarrow> None)"

definition dyn_cast_SelectInst :: "llvm_value \<Rightarrow> (llvm_value \<times> llvm_value \<times> llvm_value) option" where
  "dyn_cast_SelectInst v = (case v of SelectInst c tv fv \<Rightarrow> Some (c, tv, fv) | _ \<Rightarrow> None)"

text \<open>\<open>dyn_cast<llvm::Function>(val)\<close>: the function, or null.\<close>

definition dyn_cast_Function :: "llvm_value \<Rightarrow> llvm_function_type option" where
  "dyn_cast_Function val =
     (case val of LlvmFunction ret params \<Rightarrow> Some (ret, params) | _ \<Rightarrow> None)"

text \<open>\<open>&fn->arg_begin()[i]\<close>: dereferences \<open>fn\<close> and indexes its arguments.\<close>

definition arg_begin_at :: "llvm_function_type option \<Rightarrow> nat \<Rightarrow> error + llvm_value" where
  "arg_begin_at fn i =
     (case fn of
        None \<Rightarrow> Inl NullPointerDereference
      | Some (ret, params) \<Rightarrow>
          if i < length params then Inr (Argument i) else Inl ArgumentOutOfRange)"

text \<open>\<open>fn->getReturnType()\<close>.\<close>

definition getReturnType :: "llvm_function_type option \<Rightarrow> error + llvm_type" where
  "getReturnType fn =
     (case fn of None \<Rightarrow> Inl NullPointerDereference | Some (ret, params) \<Rightarrow> Inr ret)"

text \<open>The chain of comparisons in \<open>Pack\<close> that chooses the slot of the return
  aggregate; \<open>-1\<close> when the register has none.\<close>

definition Pack_ins_idx :: "LLReg \<Rightarrow> int" where
  "Pack_ins_idx reg =
     (if reg = LLReg LL_RT_IP 0 then 0
      else if reg = LLReg LL_RT_GP64 0 then 8
      else if reg = LLReg LL_RT_GP64 1 then 5
      else if reg = LLReg LL_RT_GP64 2 then 4
      else if reg = LLReg LL_RT_GP64 3 then 1
      else if reg = LLReg LL_RT_GP64 4 then 13
      else if reg = LLReg LL_RT_GP64 5 then 11
      else if reg = LLReg LL_RT_GP64 6 then 3
      else if reg = LLReg LL_RT_GP64 7 then 2
      else if reg = LLReg LL_RT_GP64 8 then 6
      else if reg = LLReg LL_RT_GP64 9 then 7
      else if reg = LLReg LL_RT_GP64 10 then 9
      else if reg = LLReg LL_RT_GP64 11 then 10
      else - 1)"

text \<open>The chain of comparisons in \<open>Unpack\<close> that chooses the native argument; \<open>-1\<close>
  when the register has none.\<close>

definition Unpack_arg_idx :: "LLReg \<Rightarrow> int" where
  "Unpack_arg_idx reg =
     (if reg = LLReg LL_RT_GP64 0 then 10
      else if reg = LLReg LL_RT_GP64 1 then 7
      else if reg = LLReg LL_RT_GP64 2 then 6
      else if reg = LLReg LL_RT_GP64 3 then 2
      else if reg = LLReg LL_RT_GP64 4 then 3
      else if reg = LLReg LL_RT_GP64 5 then 13
      else if reg = LLReg LL_RT_GP64 6 then 5
      else if reg = LLReg LL_RT_GP64 7 then 4
      else if reg = LLReg LL_RT_GP64 8 then 8
      else if reg = LLReg LL_RT_GP64 9 then 9
      else if reg = LLReg LL_RT_GP64 10 then 11
      else if reg = LLReg LL_RT_GP64 11 then 12
      else - 1)"

text \<open>\<open>store_insts->push_back(x)\<close> when the vector is given.\<close>

definition push_back :: "'a list option \<Rightarrow> 'a \<Rightarrow> 'a list option" where
  "push_back vec x = (case vec of None \<Rightarrow> None | Some xs \<Rightarrow> Some (xs @ [x]))"

text \<open>The state of the loop in \<open>Pack\<close>: the register file (with the block the builder
  appends to), \<open>ret_val\<close> and \<open>store_insts\<close>.\<close>

type_synonym pack_state = "RegFile \<times> llvm_value option \<times> llvm_value option list option"

definition Pack_entry :: "CallConv \<Rightarrow> llvm_value \<Rightarrow> cpu_struct_entry \<Rightarrow> pack_state \<Rightarrow> error + pack_state" where
  "Pack_entry cc sptr entry st =
     (case entry of (offset, reg, facet) \<Rightarrow>
      case st of (regfile, ret_val, store_insts) \<Rightarrow>
      case GetReg regfile reg facet of (reg_val, regfile1) \<Rightarrow>
        (let ins_idx = (if cc = HHVM then Pack_ins_idx reg else - 1)
         in if cc = HHVM \<and> 0 \<le> ins_idx then
              (case ret_val of
                 None \<Rightarrow> Inl NullPointerDereference
               | Some agg \<Rightarrow>
                   (let ins = InsertValue agg reg_val (nat ins_idx)
                    in Inr (emit ins regfile1, Some ins, push_back store_insts None)))
            else
              (let gep = ConstGEP1_64 sptr offset;
                   ptr = PointerCast gep (FacetPtrTy facet);
                   store_inst = StoreInst reg_val ptr
               in Inr (emit store_inst (emit ptr (emit gep regfile1)), ret_val,
                       push_back store_insts (Some store_inst)))))"

fun Pack_loop :: "CallConv \<Rightarrow> llvm_value \<Rightarrow> cpu_struct_entry list \<Rightarrow> pack_state \<Rightarrow> error + pack_state" where
  "Pack_loop cc sptr [] st = Inr st"
| "Pack_loop cc sptr (entry # entries) st =
     (case Pack_entry cc sptr entry st of
        Inl e \<Rightarrow> Inl e
      | Inr st' \<Rightarrow> Pack_loop cc sptr entries st')"

definition Pack :: "CallConv \<Rightarrow> cpu_struct_entry list \<Rightarrow> RegFile \<Rightarrow> llvm_value \<Rightarrow>
    llvm_value option list option \<Rightarrow> error + pack_state" where
  "Pack cc entries regfile val store_insts =
     (let fn = dyn_cast_Function val
      in case (if fn \<noteq> None then arg_begin_at fn (CpuStructParamIdx cc) else Inr val) of
           Inl e \<Rightarrow> Inl e
         | Inr sptr \<Rightarrow>
             (case (if cc = HHVM
                    then (case getReturnType fn of
                            Inl e \<Rightarrow> Inl e
                          | Inr ty \<Rightarrow> Inr (Some (UndefValue ty)))
                    else Inr None) of
                Inl e \<Rightarrow> Inl e
              | Inr ret_val \<Rightarrow> Pack_loop cc sptr entries (regfile, ret_val, store_insts)))"

text \<open>The state of the loop in \<open>Unpack\<close>: the register file and \<open>loaded_vals\<close>.\<close>

type_synonym unpack_state = "RegFile \<times> llvm_value list option"

definition Unpack_entry :: "CallConv \<Rightarrow> llvm_value \<Rightarrow> llvm_function_type option \<Rightarrow>
    cpu_struct_entry \<Rightarrow> unpack_state \<Rightarrow> error + unpack_state" where
  "Unpack_entry cc sptr fn entry st =
     (case entry of (offset, reg, facet) \<Rightarrow>
      case st of (regfile, loaded_vals) \<Rightarrow>
        (let arg_idx = (if cc = HHVM then Unpack_arg_idx reg else - 1)
         in if cc = HHVM \<and> 0 \<le> arg_idx then
              (case arg_begin_at fn (nat arg_idx) of
                 Inl e \<Rightarrow> Inl e
               | Inr reg_val \<Rightarrow>
                   Inr (SetReg regfile reg facet reg_val False, push_back loaded_vals reg_val))
            else
              (let gep = ConstGEP1_64 sptr offset;
                   ptr = PointerCast gep (FacetPtrTy facet);
                   reg_val = LoadInst ptr
               in Inr (SetReg (emit reg_val (emit ptr (emit gep regfile))) reg facet reg_val False,
                       push_back loaded_vals reg_val))))"

fun Unpack_loop :: "CallConv \<Rightarrow> llvm_value \<Rightarrow> llvm_function_type option \<Rightarrow>
    cpu_struct_entry list \<Rightarrow> unpack_state \<Rightarrow> error + unpack_state" where
  "Unpack_loop cc sptr fn [] st = Inr st"
| "Unpack_loop cc sptr fn (entry # entries) st =
     (case Unpack_entry cc sptr fn entry st of
        Inl e \<Rightarrow> Inl e
      | Inr st' \<Rightarrow> Unpack_loop cc sptr fn entries st')"

definition Unpack :: "CallConv \<Rightarrow> cpu_struct_entry list \<Rightarrow> RegFile \<Rightarrow> llvm_value \<Rightarrow>
    llvm_value list option \<Rightarrow> error + unpack_state" where
  "Unpack cc entries regfile val loaded_vals =
     (let fn = dyn_cast_Function val
      in case (if fn \<noteq> None then arg_begin_at fn (CpuStructParamIdx cc) else Inr val) of
           Inl e \<Rightarrow> Inl e
         | Inr sptr \<Rightarrow> Unpack_loop cc sptr fn entries (regfile, loaded_vals))"

section \<open>Basic blocks\<close>

text \<open>The role of a block: \<open>BasicBlock::ENTRY\<close>, \<open>BasicBlock::EXIT\<close>, or neither for
  the block of an address.\<close>

datatype BlockKind = DEFAULT | ENTRY | EXIT

text \<open>
  Modelled from the spec: the data of a basic block (section 3; the basic block is not
  among the sources). A block holds its register file, its resolved successor set
  (none while unresolved, one for an unconditional branch, two with a selector for a
  conditional branch), its predecessor edges in the order they were added, and its
  merge placeholders: the outstanding ones are in the register file, a resolved one is
  in \<open>filled_phis\<close> with one value per predecessor edge (the value of the predecessor
  itself when there is one edge). \<open>mem_ref_values\<close> keeps what the calling convention
  loaded or stored for the block.
\<close>

datatype terminator = Br blockref | CondBr llvm_value blockref blockref

record ArchBasicBlock =
  kind :: BlockKind
  regfile :: RegFile
  terminator :: "terminator option"
  predecessors :: "blockref list"
  mem_ref_values :: "llvm_value option list"
  filled_phis :: "((LLReg \<times> Facet) \<times> (blockref \<times> llvm_value) list) list"

text \<open>
  Modelled from the spec: the state of a block before anything is lifted into it (the
  basic block is not among the sources): an empty register file, unresolved
  successors, no predecessors.
\<close>

definition fresh_block :: "blockref \<Rightarrow> BlockKind \<Rightarrow> ArchBasicBlock" where
  "fresh_block ident k =
     \<lparr>kind = k, regfile = RegFile_new ident, terminator = None, predecessors = [],
      mem_ref_values = [], filled_phis = []\<rparr>"

text \<open>
  Modelled from the spec: the constructor of \<open>ArchBasicBlock\<close> (the basic block is not
  among the sources). Section 3: the ENTRY block holds the native-argument unpack and
  the EXIT block holds the native-return pack; section 4.3: the unpack is applied when
  ENTRY is built, the pack when EXIT is. The values \<open>Unpack\<close> loaded and the stores
  \<open>Pack\<close> emitted are kept in \<open>mem_ref_values\<close> for the dead-store elimination. The
  table of the calling convention and the native function are arguments.
\<close>

definition ArchBasicBlock_new :: "cpu_struct_entry list \<Rightarrow> llvm_value \<Rightarrow> CallConv \<Rightarrow> blockref \<Rightarrow>
    BlockKind \<Rightarrow> error + ArchBasicBlock" where
  "ArchBasicBlock_new entries fn cc ident k =
     (let blk = fresh_block ident k
      in case k of
           DEFAULT \<Rightarrow> Inr blk
         | ENTRY \<Rightarrow>
             (case Unpack cc entries (regfile blk) fn (Some []) of
                Inl e \<Rightarrow> Inl e
              | Inr (rf, loaded_vals) \<Rightarrow>
                  Inr (blk\<lparr>regfile := rf,
                           mem_ref_values :=
                             (case loaded_vals of None \<Rightarrow> [] | Some vs \<Rightarrow> map Some vs)\<rparr>))
         | EXIT \<Rightarrow>
             (case Pack cc entries (regfile blk) fn (Some []) of
                Inl e \<Rightarrow> Inl e
              | Inr (rf, ret_val, store_insts) \<Rightarrow>
                  Inr (blk\<lparr>regfile := emit (ReturnInst ret_val) rf,
                           mem_ref_values :=
                             (case store_insts of None \<Rightarrow> [] | Some vs \<Rightarrow> vs)\<rparr>)))"

text \<open>
  Modelled from the spec: \<open>NextRip\<close> reads the symbolic next instruction pointer of the
  block (section 4.3), a read of the instruction pointer register in the block's
  register file.
\<close>

definition NextRip :: "ArchBasicBlock \<Rightarrow> llvm_value \<times> ArchBasicBlock" where
  "NextRip blk =
     (case GetReg (regfile blk) (LLReg LL_RT_IP 0) (IntFacet 64) of
        (v, rf) \<Rightarrow> (v, blk\<lparr>regfile := rf\<rparr>))"

section \<open>Function (function.cc)\<close>

record LLConfig =
  callconv :: CallConv
  verify_ir :: bool

text \<open>
  \<open>block_map\<close> is the map from addresses to the blocks it owns, as an association list
  with one entry per key; the order of the list stands for the order in which the
  loops of \<open>Lift\<close> visit the hash map (the lemmas on the loops hold for every order).
  \<open>entry_addr\<close> has no value until the first instruction is added; \<open>exit_block\<close> is
  null until \<open>Lift\<close> creates the block. \<open>llvm\<close> is the native function the constructor
  creates, \<open>llvm_callconv\<close> the tag it sets on it. The attributes the constructor puts
  on the state-pointer parameter are left out.
\<close>

record Function =
  cfg :: LLConfig
  llvm :: llvm_value
  llvm_callconv :: CallingConvID
  entry_block :: ArchBasicBlock
  exit_block :: "ArchBasicBlock option"
  entry_addr :: "64 word option"
  block_map :: "(64 word \<times> ArchBasicBlock) list"

text \<open>
  The constructor: it creates the native function with the type of the convention
  (\<open>llvm::Function::Create\<close> dereferences the type, which is null for an unsupported
  convention), sets the tag, and creates the entry block.
\<close>

definition Function_new :: "cpu_struct_entry list \<Rightarrow> LLConfig \<Rightarrow> error + Function" where
  "Function_new entries c =
     (case FnType (callconv c) of
        None \<Rightarrow> Inl NullPointerDereference
      | Some (ret, params) \<Rightarrow>
          (let fn = LlvmFunction ret params
           in case ArchBasicBlock_new entries fn (callconv c) EntryBlock ENTRY of
                Inl e \<Rightarrow> Inl e
              | Inr eb \<Rightarrow>
                  Inr \<lparr>cfg = c, llvm = fn, llvm_callconv = FnCallConv (callconv c),
                       entry_block = eb, exit_block = None, entry_addr = None,
                       block_map = []\<rparr>))"

text \<open>Dereferencing a block reference: the block it names, if it exists.\<close>

definition get_block :: "Function \<Rightarrow> blockref \<Rightarrow> ArchBasicBlock option" where
  "get_block f r =
     (case r of
        EntryBlock \<Rightarrow> Some (entry_block f)
      | ExitBlock \<Rightarrow> exit_block f
      | AddrBlock a \<Rightarrow> map_of (block_map f) a)"

definition update_block :: "blockref \<Rightarrow> (ArchBasicBlock \<Rightarrow> ArchBasicBlock) \<Rightarrow> Function \<Rightarrow> Function" where
  "update_block r g f =
     (case r of
        EntryBlock \<Rightarrow> f\<lparr>entry_block := g (entry_block f)\<rparr>
      | ExitBlock \<Rightarrow> f\<lparr>exit_block := map_option g (exit_block f)\<rparr>
      | AddrBlock a \<Rightarrow> f\<lparr>block_map := AList.map_entry a g (block_map f)\<rparr>)"

text \<open>
  \<open>AddInst\<close>. The per-instruction lifter is not among the sources: section 6 says it
  performs register-file reads and writes in the target block, so it is an argument
  that acts on the register file of the block.
\<close>

definition AddInst :: "cpu_struct_entry list \<Rightarrow> ('i \<Rightarrow> RegFile \<Rightarrow> RegFile) \<Rightarrow> Function \<Rightarrow> 64 word \<Rightarrow> 'i \<Rightarrow>
    error + Function" where
  "AddInst entries lifter_Lift f block_addr inst =
     (let f1 = (if length (block_map f) = 0 then f\<lparr>entry_addr := Some block_addr\<rparr> else f)
      in case (if map_of (block_map f1) block_addr = None
               then (case ArchBasicBlock_new entries (llvm f1) (callconv (cfg f1))
                            (AddrBlock block_addr) DEFAULT of
                       Inl e \<Rightarrow> Inl e
                     | Inr blk \<Rightarrow> Inr (f1\<lparr>block_map := block_map f1 @ [(block_addr, blk)]\<rparr>))
               else Inr f1) of
           Inl e \<Rightarrow> Inl e
         | Inr f2 \<Rightarrow>
             Inr (update_block (AddrBlock block_addr)
                    (\<lambda>blk. blk\<lparr>regfile := lifter_Lift inst (regfile blk)\<rparr>) f2))"

text \<open>A sequence of \<open>AddInst\<close> calls on one function, in order.\<close>

fun AddInst_calls :: "cpu_struct_entry list \<Rightarrow> ('i \<Rightarrow> RegFile \<Rightarrow> RegFile) \<Rightarrow> Function \<Rightarrow>
    (64 word \<times> 'i) list \<Rightarrow> error + Function" where
  "AddInst_calls entries lifter_Lift f [] = Inr f"
| "AddInst_calls entries lifter_Lift f (c # cs) =
     (case AddInst entries lifter_Lift f (fst c) (snd c) of
        Inl e \<Rightarrow> Inl e
      | Inr f' \<Rightarrow> AddInst_calls entries lifter_Lift f' cs)"

text \<open>\<open>ResolveAddr\<close> returns a reference to a block: \<open>Lift\<close> calls it after it has
  created the exit block.\<close>

definition ResolveAddr :: "Function \<Rightarrow> llvm_value \<Rightarrow> blockref" where
  "ResolveAddr f addr =
     (case dyn_cast_ConstantInt addr of
        Some const_addr \<Rightarrow>
          (case map_of (block_map f) const_addr of
             Some blk \<Rightarrow> AddrBlock const_addr
           | None \<Rightarrow> ExitBlock)
      | None \<Rightarrow> ExitBlock)"

text \<open>
  Modelled from the spec: a successor edge makes the source block a predecessor of its
  target (section 3: a merge combines one value per predecessor edge in predecessor
  order).
\<close>

definition add_predecessor :: "blockref \<Rightarrow> blockref \<Rightarrow> Function \<Rightarrow> Function" where
  "add_predecessor src dst f =
     update_block dst (\<lambda>blk. blk\<lparr>predecessors := predecessors blk @ [src]\<rparr>) f"

text \<open>
  Modelled from the spec: \<open>BranchTo\<close> with one successor (the basic block is not among
  the sources). Section 4.2: a block accepts a control-flow resolution exactly once;
  resolving a second time is a fatal contract violation. The blocks are passed by
  reference, so a reference to a block that does not exist is a null dereference.
\<close>

definition BranchTo :: "blockref \<Rightarrow> blockref \<Rightarrow> Function \<Rightarrow> error + Function" where
  "BranchTo src next f =
     (case get_block f src of
        None \<Rightarrow> Inl NullPointerDereference
      | Some blk \<Rightarrow>
          if get_block f next = None then Inl NullPointerDereference
          else if terminator blk \<noteq> None then Inl ContractViolation
          else Inr (add_predecessor src next
                      (update_block src (\<lambda>b. b\<lparr>terminator := Some (Br next)\<rparr>) f)))"

text \<open>
  Modelled from the spec: \<open>BranchTo\<close> with a condition and two successors, the same
  contract (section 4.2).
\<close>

definition BranchTo_cond :: "blockref \<Rightarrow> llvm_value \<Rightarrow> blockref \<Rightarrow> blockref \<Rightarrow> Function \<Rightarrow>
    error + Function" where
  "BranchTo_cond src cond then_block else_block f =
     (case get_block f src of
        None \<Rightarrow> Inl NullPointerDereference
      | Some blk \<Rightarrow>
          if get_block f then_block = None \<or> get_block f else_block = None
          then Inl NullPointerDereference
          else if terminator blk \<noteq> None then Inl ContractViolation
          else Inr (add_predecessor src else_block
                      (add_predecessor src then_block
                         (update_block src
                            (\<lambda>b. b\<lparr>terminator := Some (CondBr cond then_block else_block)\<rparr>) f))))"

text \<open>The body of the loop over \<open>block_map\<close> in \<open>Lift\<close>, at the block of one key.\<close>

definition stitch_block :: "64 word \<Rightarrow> Function \<Rightarrow> error + Function" where
  "stitch_block a f =
     (case map_of (block_map f) a of
        None \<Rightarrow> Inl NullPointerDereference
      | Some blk \<Rightarrow>
          (case NextRip blk of (next_rip, blk') \<Rightarrow>
             (let f1 = update_block (AddrBlock a) (\<lambda>b. blk') f
              in case dyn_cast_SelectInst next_rip of
                   Some (c, tv, fv) \<Rightarrow>
                     BranchTo_cond (AddrBlock a) c (ResolveAddr f1 tv) (ResolveAddr f1 fv) f1
                 | None \<Rightarrow> BranchTo (AddrBlock a) (ResolveAddr f1 next_rip) f1)))"

fun stitch_blocks :: "64 word list \<Rightarrow> Function \<Rightarrow> error + Function" where
  "stitch_blocks [] f = Inr f"
| "stitch_blocks (a # as) f =
     (case stitch_block a f of
        Inl e \<Rightarrow> Inl e
      | Inr f' \<Rightarrow> stitch_blocks as f')"

text \<open>
  Modelled from the spec: a value is still pending in a block when it is a merge
  placeholder of that block that is outstanding (section 4.2).
\<close>

definition is_pending :: "ArchBasicBlock \<Rightarrow> llvm_value \<Rightarrow> bool" where
  "is_pending blk v =
     (case v of
        PHINode b reg facet \<Rightarrow>
          b = insert_block_id (regfile blk) \<and> (reg, facet) \<in> set (empty_phis (regfile blk))
      | _ \<Rightarrow> False)"

text \<open>
  Modelled from the spec: the determinable value of a predecessor for a register facet
  (section 4.2): none if the predecessor is not yet resolved, has no value, or has a
  value that is itself still pending.
\<close>

definition pred_value :: "Function \<Rightarrow> LLReg \<times> Facet \<Rightarrow> blockref \<Rightarrow> llvm_value option" where
  "pred_value f key p =
     (case get_block f p of
        None \<Rightarrow> None
      | Some pb \<Rightarrow>
          if terminator pb = None then None
          else (case reg_values (regfile pb) key of
                  None \<Rightarrow> None
                | Some v \<Rightarrow> if is_pending pb v then None else Some v))"

text \<open>
  Modelled from the spec: a placeholder fills when every predecessor edge has a
  determinable value for the register facet (section 4.2).
\<close>

definition fillable :: "Function \<Rightarrow> ArchBasicBlock \<Rightarrow> LLReg \<times> Facet \<Rightarrow> bool" where
  "fillable f blk key = list_all (\<lambda>p. pred_value f key p \<noteq> None) (predecessors blk)"

text \<open>
  Modelled from the spec: the fill attempt on every outstanding placeholder of a block
  (section 4.2). A placeholder that fills is resolved with one value per predecessor
  edge in predecessor order and is no longer outstanding; the others stay as they are.
\<close>

definition fill_block :: "Function \<Rightarrow> ArchBasicBlock \<Rightarrow> ArchBasicBlock" where
  "fill_block f blk =
     blk\<lparr>regfile := (regfile blk)\<lparr>empty_phis :=
                        filter (\<lambda>key. \<not> fillable f blk key) (empty_phis (regfile blk))\<rparr>,
         filled_phis := filled_phis blk @
            map (\<lambda>key. (key, List.map_filter (\<lambda>p. map_option (Pair p) (pred_value f key p))
                                (predecessors blk)))
                (filter (fillable f blk) (empty_phis (regfile blk)))\<rparr>"

text \<open>
  Modelled from the spec: \<open>FillPhis\<close> (the basic block is not among the sources).
  Section 4.2: the block attempts to fill each of its outstanding merge placeholders;
  the result says whether a placeholder was filled. Attempting a fill on a block whose
  successors are not yet resolved is a fatal contract violation; the exit block has no
  successors to resolve.
\<close>

definition FillPhis :: "blockref \<Rightarrow> Function \<Rightarrow> error + bool \<times> Function" where
  "FillPhis r f =
     (case get_block f r of
        None \<Rightarrow> Inl NullPointerDereference
      | Some blk \<Rightarrow>
          if kind blk \<noteq> EXIT \<and> terminator blk = None then Inl ContractViolation
          else Inr (filter (fillable f blk) (empty_phis (regfile blk)) \<noteq> [],
                    update_block r (fill_block f) f))"

text \<open>One pass of the loop body in \<open>Lift\<close>: every block of \<open>block_map\<close>, then the exit
  block; \<open>changed\<close> accumulates the results.\<close>

fun FillPhis_blocks :: "64 word list \<Rightarrow> bool \<times> Function \<Rightarrow> error + bool \<times> Function" where
  "FillPhis_blocks [] cf = Inr cf"
| "FillPhis_blocks (a # as) cf =
     (case FillPhis (AddrBlock a) (snd cf) of
        Inl e \<Rightarrow> Inl e
      | Inr r \<Rightarrow> FillPhis_blocks as (fst cf \<or> fst r, snd r))"

definition fill_pass :: "Function \<Rightarrow> error + bool \<times> Function" where
  "fill_pass f =
     (case FillPhis_blocks (map fst (block_map f)) (False, f) of
        Inl e \<Rightarrow> Inl e
      | Inr cf \<Rightarrow>
          (case FillPhis ExitBlock (snd cf) of
             Inl e \<Rightarrow> Inl e
           | Inr r \<Rightarrow> Inr (fst cf \<or> fst r, snd r)))"

text \<open>The loop \<open>while (changed)\<close>: \<open>changed\<close> starts true, so the body runs at least
  once, and the loop ends after the first pass that leaves it false. Not returning is
  the value \<open>None\<close>.\<close>

partial_function (option) fill_loop :: "Function \<Rightarrow> (error + Function) option" where
  "fill_loop f =
     (case fill_pass f of
        Inl e \<Rightarrow> Some (Inl e)
      | Inr cf \<Rightarrow> if fst cf then fill_loop (snd cf) else Some (Inr (snd cf)))"

text \<open>
  Modelled from the spec: \<open>RemoveUnmodifiedStores\<close> (the basic block is not among the
  sources). Section 4.2: the exit block removes a register write whose value is
  identity-equal to the corresponding entry-block read, and never one whose identity
  cannot be proven.
\<close>

definition RemoveUnmodifiedStores :: "ArchBasicBlock \<Rightarrow> ArchBasicBlock \<Rightarrow> ArchBasicBlock" where
  "RemoveUnmodifiedStores exit_b entry_b =
     (let dead = concat (map (\<lambda>(s, l). case s of
                                Some (StoreInst v ptr) \<Rightarrow>
                                  if l = Some v then [StoreInst v ptr] else []
                              | _ \<Rightarrow> [])
                          (zip (mem_ref_values exit_b) (mem_ref_values entry_b)))
      in exit_b\<lparr>regfile := (regfile exit_b)\<lparr>insert_block :=
                    filter (\<lambda>i. i \<notin> set dead) (insert_block (regfile exit_b))\<rparr>\<rparr>)"

text \<open>
  \<open>Lift\<close>. The structural verifier of the IR toolkit is an argument: it returns true when
  the function is broken. The result is the returned pointer (\<open>None\<close> for null) with
  the state of the function object.
\<close>

definition Lift :: "cpu_struct_entry list \<Rightarrow> (Function \<Rightarrow> bool) \<Rightarrow> Function \<Rightarrow>
    (error + llvm_value option \<times> Function) option" where
  "Lift entries verifyFunction f =
     (if length (block_map f) = 0 then Some (Inr (None, f))
      else
        case ArchBasicBlock_new entries (llvm f) (callconv (cfg f)) ExitBlock EXIT of
          Inl e \<Rightarrow> Some (Inl e)
        | Inr xb \<Rightarrow>
            (let f1 = f\<lparr>exit_block := Some xb\<rparr>
             in case entry_addr f1 of
                  None \<Rightarrow> Some (Inl IndeterminateValue)
                | Some ea \<Rightarrow>
                    (case BranchTo EntryBlock (AddrBlock ea) f1 of
                       Inl e \<Rightarrow> Some (Inl e)
                     | Inr f2 \<Rightarrow>
                         (case stitch_blocks (map fst (block_map f2)) f2 of
                            Inl e \<Rightarrow> Some (Inl e)
                          | Inr f3 \<Rightarrow>
                              (case fill_loop f3 of
                                 None \<Rightarrow> None
                               | Some (Inl e) \<Rightarrow> Some (Inl e)
                               | Some (Inr f4) \<Rightarrow>
                                   (let f5 = update_block ExitBlock
                                               (\<lambda>x. RemoveUnmodifiedStores x (entry_block f4)) f4
                                    in if verify_ir (cfg f5) \<and> verifyFunction f5
                                       then Some (Inr (None, f5))
                                       else Some (Inr (Some (llvm f5), f5))))))))"

section \<open>An example function\<close>

text \<open>
  The blocks of section 8 of the spec, at the addresses 0x100 and 0x110. An instruction
  is given by the next instruction pointer it writes: the one at 0x100 writes a select
  between the literal 0x110 and a value that is no constant, the one at 0x110 the
  literal 0x100.
\<close>

definition write_next_rip :: "llvm_value \<Rightarrow> RegFile \<Rightarrow> RegFile" where
  "write_next_rip v rf = SetReg rf (LLReg LL_RT_IP 0) (IntFacet 64) v False"

definition example_cfg :: LLConfig where
  "example_cfg = \<lparr>callconv = SPTR, verify_ir = True\<rparr>"

definition example_calls :: "(64 word \<times> llvm_value) list" where
  "example_calls =
     [(0x100, SelectInst (OtherValue 1) (ConstantInt 0x110) (OtherValue 2)),
      (0x110, ConstantInt 0x100)]"

section \<open>Views of the block graph\<close>

text \<open>The branch the stitching loop of \<open>Lift\<close> is expected to give a block: a
  conditional branch on the condition of the select when the next instruction pointer
  is a select, with both sides resolved on their own; an unconditional branch to the
  resolution of the value otherwise.\<close>

definition next_branch :: "Function \<Rightarrow> ArchBasicBlock \<Rightarrow> terminator" where
  "next_branch f blk =
     (case dyn_cast_SelectInst (fst (NextRip blk)) of
        Some (c, tv, fv) \<Rightarrow> CondBr c (ResolveAddr f tv) (ResolveAddr f fv)
      | None \<Rightarrow> Br (ResolveAddr f (fst (NextRip blk))))"

text \<open>The resolved successors and the predecessors of the block a reference names.\<close>

definition terminator_of :: "Function \<Rightarrow> blockref \<Rightarrow> terminator option" where
  "terminator_of f r = (case get_block f r of None \<Rightarrow> None | Some blk \<Rightarrow> terminator blk)"

definition predecessors_of :: "Function \<Rightarrow> blockref \<Rightarrow> blockref list" where
  "predecessors_of f r = (case get_block f r of None \<Rightarrow> [] | Some blk \<Rightarrow> predecessors blk)"

text \<open>The outstanding merge placeholders of a block, and their number over the
  function.\<close>

definition pending :: "Function \<Rightarrow> blockref \<Rightarrow> (LLReg \<times> Facet) list" where
  "pending f r = (case get_block f r of None \<Rightarrow> [] | Some blk \<Rightarrow> empty_phis (regfile blk))"

definition total_pending :: "Function \<Rightarrow> nat" where
  "total_pending f =
     length (empty_phis (regfile (entry_block f)))
     + sum_list (map (\<lambda>p. length (empty_phis (regfile (snd p)))) (block_map f))
     + (case exit_block f of None \<Rightarrow> 0 | Some x \<Rightarrow> length (empty_phis (regfile x)))"

text \<open>Two states of a function with the same block graph: the same blocks, kinds,
  branches and predecessors, and no placeholder pending in the second that was not
  pending in the first.\<close>

definition same_graph :: "Function \<Rightarrow> Function \<Rightarrow> bool" where
  "same_graph f g =
     (map fst (block_map g) = map fst (block_map f) \<and> cfg g = cfg f \<and> llvm g = llvm f \<and>
      entry_addr g = entry_addr f \<and>
      (\<forall>b. map_option kind (get_block g b) = map_option kind (get_block f b)) \<and>
      (\<forall>b. terminator_of g b = terminator_of f b) \<and>
      (\<forall>b. predecessors_of g b = predecessors_of f b) \<and>
      (\<forall>b. set (pending g b) \<subseteq> set (pending f b)))"

section \<open>What the calling convention does per table entry\<close>

text \<open>The state pointer \<open>Pack\<close> and \<open>Unpack\<close> work with: the value itself, or the
  state-pointer argument when the value is the native function.\<close>

definition sptr_of :: "CallConv \<Rightarrow> llvm_value \<Rightarrow> llvm_value" where
  "sptr_of cc val =
     (if dyn_cast_Function val \<noteq> None then Argument (CpuStructParamIdx cc) else val)"

text \<open>The typed pointer to the slot of a table entry in the state structure.\<close>

definition entry_ptr :: "llvm_value \<Rightarrow> cpu_struct_entry \<Rightarrow> llvm_value" where
  "entry_ptr sptr entry =
     (case entry of (offset, reg, facet) \<Rightarrow>
        PointerCast (ConstGEP1_64 sptr offset) (FacetPtrTy facet))"

text \<open>The instructions with a side effect on the native state: loads, stores and
  aggregate insertions.\<close>

fun is_side_effect :: "llvm_value \<Rightarrow> bool" where
  "is_side_effect (LoadInst p) = True"
| "is_side_effect (StoreInst v p) = True"
| "is_side_effect (InsertValue agg v i) = True"
| "is_side_effect v = False"

text \<open>A register is listed by the fixed-physical-register convention for the exit
  (entry) when \<open>Pack\<close> (\<open>Unpack\<close>) finds a slot for it.\<close>

definition pack_listed :: "CallConv \<Rightarrow> cpu_struct_entry \<Rightarrow> bool" where
  "pack_listed cc entry = (cc = HHVM \<and> 0 \<le> Pack_ins_idx (fst (snd entry)))"

definition unpack_listed :: "CallConv \<Rightarrow> cpu_struct_entry \<Rightarrow> bool" where
  "unpack_listed cc entry = (cc = HHVM \<and> 0 \<le> Unpack_arg_idx (fst (snd entry)))"

text \<open>What \<open>Pack\<close> is expected to push to \<open>store_insts\<close> for an entry: null for a listed
  register, a store to the slot of the entry otherwise.\<close>

definition store_matches :: "CallConv \<Rightarrow> llvm_value \<Rightarrow> cpu_struct_entry \<Rightarrow> llvm_value option \<Rightarrow> bool" where
  "store_matches cc sptr entry s =
     (if pack_listed cc entry then s = None
      else (case s of
              Some (StoreInst v p) \<Rightarrow> p = entry_ptr sptr entry
            | _ \<Rightarrow> False))"

text \<open>The side effect \<open>Pack\<close> is expected to emit for an entry: an insertion at the
  slot of a listed register, a store to the slot of the entry otherwise.\<close>

definition pack_effect_matches :: "CallConv \<Rightarrow> llvm_value \<Rightarrow> cpu_struct_entry \<Rightarrow> llvm_value \<Rightarrow> bool" where
  "pack_effect_matches cc sptr entry inst =
     (if pack_listed cc entry
      then (case inst of
              InsertValue agg v i \<Rightarrow> int i = Pack_ins_idx (fst (snd entry))
            | _ \<Rightarrow> False)
      else (case inst of
              StoreInst v p \<Rightarrow> p = entry_ptr sptr entry
            | _ \<Rightarrow> False))"

text \<open>The value \<open>Unpack\<close> is expected to give the register of an entry: the native
  argument of a listed register, a load from the slot of the entry otherwise.\<close>

definition unpack_value :: "CallConv \<Rightarrow> llvm_value \<Rightarrow> cpu_struct_entry \<Rightarrow> llvm_value" where
  "unpack_value cc sptr entry =
     (if unpack_listed cc entry then Argument (nat (Unpack_arg_idx (fst (snd entry))))
      else LoadInst (entry_ptr sptr entry))"

section \<open>Properties of the calling convention\<close>

lemma Pack_ins_idx_inj:
  "0 \<le> Pack_ins_idx r \<Longrightarrow> Pack_ins_idx r = Pack_ins_idx r' \<Longrightarrow> r = r'"
  by (simp add: Pack_ins_idx_def split: if_splits)

lemma Unpack_arg_idx_inj:
  "0 \<le> Unpack_arg_idx r \<Longrightarrow> Unpack_arg_idx r = Unpack_arg_idx r' \<Longrightarrow> r = r'"
  by (simp add: Unpack_arg_idx_def split: if_splits)

lemma Unpack_listed_Pack_listed:
  "0 \<le> Unpack_arg_idx r \<Longrightarrow> 0 \<le> Pack_ins_idx r"
  by (simp add: Unpack_arg_idx_def Pack_ins_idx_def split: if_splits)

lemma Pack_ins_idx_bound: "Pack_ins_idx r < 14"
  by (simp add: Pack_ins_idx_def)

lemma Unpack_arg_idx_bound: "Unpack_arg_idx r < 14"
  by (simp add: Unpack_arg_idx_def)

lemma cpu_struct_entries_distinct: "distinct (map (\<lambda>e. fst (snd e)) cpu_struct_entries)"
  by code_simp

lemma cpu_struct_entries_listed: "list_ex (unpack_listed HHVM) cpu_struct_entries"
  by code_simp

text \<open>
  C3. The fixed-physical-register (HHVM) convention gives the instruction pointer a
  return slot on exit (slot 0 in \<open>Pack\<close>) and no native argument on entry (\<open>Unpack\<close>
  has no case for it): the register is listed for the exit only. At the table entry of
  the instruction pointer \<open>Pack\<close> inserts the value into the return aggregate and
  stores nothing, while \<open>Unpack\<close> reads no argument and loads the value through the
  state pointer. Both index chains are injective on the registers they list
  (\<open>Pack_ins_idx_inj\<close>, \<open>Unpack_arg_idx_inj\<close>), and every register with a native argument
  has a return slot (\<open>Unpack_listed_Pack_listed\<close>).
\<close>

theorem hhvm_instruction_pointer_slots:
  "Pack_ins_idx (LLReg LL_RT_IP 0) = 0 \<and> Unpack_arg_idx (LLReg LL_RT_IP 0) = - 1 \<and>
   Pack_entry HHVM sptr (off, LLReg LL_RT_IP 0, facet) (rf, Some agg, si) =
     Inr (emit (InsertValue agg (fst (GetReg rf (LLReg LL_RT_IP 0) facet)) 0)
            (snd (GetReg rf (LLReg LL_RT_IP 0) facet)),
          Some (InsertValue agg (fst (GetReg rf (LLReg LL_RT_IP 0) facet)) 0),
          push_back si None) \<and>
   Unpack_entry HHVM sptr fn (off, LLReg LL_RT_IP 0, facet) (rf, lv) =
     Inr (SetReg (emit (LoadInst (PointerCast (ConstGEP1_64 sptr off) (FacetPtrTy facet)))
                    (emit (PointerCast (ConstGEP1_64 sptr off) (FacetPtrTy facet))
                       (emit (ConstGEP1_64 sptr off) rf)))
            (LLReg LL_RT_IP 0) facet
            (LoadInst (PointerCast (ConstGEP1_64 sptr off) (FacetPtrTy facet))) False,
          push_back lv (LoadInst (PointerCast (ConstGEP1_64 sptr off) (FacetPtrTy facet))))"
  by (simp add: Pack_ins_idx_def Unpack_arg_idx_def Pack_entry_def Unpack_entry_def Let_def
      split: prod.splits)

lemma Pack_HHVM_null:
  "dyn_cast_Function val = None \<Longrightarrow> Pack HHVM tbl rf val si = Inl NullPointerDereference"
  by (simp add: Pack_def getReturnType_def)

lemma Unpack_loop_HHVM_null:
  "list_ex (unpack_listed HHVM) tbl \<Longrightarrow>
   Unpack_loop HHVM sptr None tbl st = Inl NullPointerDereference"
proof (induction tbl arbitrary: st)
  case Nil
  then show ?case by simp
next
  case (Cons e es)
  obtain off reg facet where e: "e = (off, reg, facet)" by (cases e) auto
  obtain rf lv where st: "st = (rf, lv)" by (cases st) auto
  show ?case
  proof (cases "0 \<le> Unpack_arg_idx reg")
    case True
    then show ?thesis by (simp add: e st Unpack_entry_def arg_begin_at_def)
  next
    case False
    with Cons.prems e have "list_ex (unpack_listed HHVM) es"
      by (simp add: unpack_listed_def [abs_def])
    from Cons.IH [OF this] False show ?thesis
      by (simp add: e st Unpack_entry_def Let_def)
  qed
qed

lemma Unpack_HHVM_null:
  "dyn_cast_Function val = None \<Longrightarrow> list_ex (unpack_listed HHVM) tbl \<Longrightarrow>
   Unpack HHVM tbl rf val lv = Inl NullPointerDereference"
  by (simp add: Unpack_def Unpack_loop_HHVM_null)

lemma Pack_entry_ok:
  "cc = HHVM \<longrightarrow> ret_val \<noteq> None \<Longrightarrow>
   \<exists>rf' rv' si'. Pack_entry cc sptr e (rf, ret_val, si) = Inr (rf', rv', si') \<and> (cc = HHVM \<longrightarrow> rv' \<noteq> None)"
  by (cases e; cases "GetReg rf (fst (snd e)) (snd (snd e))")
     (auto simp: Pack_entry_def Let_def split: option.splits)

lemma Pack_loop_ok:
  "cc = HHVM \<longrightarrow> ret_val \<noteq> None \<Longrightarrow>
   \<exists>st. Pack_loop cc sptr tbl (rf, ret_val, si) = Inr st"
proof (induction tbl arbitrary: rf ret_val si)
  case Nil
  then show ?case by simp
next
  case (Cons e es)
  from Pack_entry_ok [OF Cons.prems] obtain rf' rv' si'
    where step: "Pack_entry cc sptr e (rf, ret_val, si) = Inr (rf', rv', si')"
      and rv: "cc = HHVM \<longrightarrow> rv' \<noteq> None" by blast
  from Cons.IH [OF rv] step show ?case by simp
qed

lemma Unpack_entry_ok:
  "cc = HHVM \<longrightarrow> (\<exists>ret params. fn = Some (ret, params) \<and> 14 \<le> length params) \<Longrightarrow>
   \<exists>st'. Unpack_entry cc sptr fn e st = Inr st'"
  using Unpack_arg_idx_bound [of "fst (snd e)"]
  by (cases e; cases st) (auto simp: Unpack_entry_def Let_def arg_begin_at_def)

lemma Unpack_loop_ok:
  "cc = HHVM \<longrightarrow> (\<exists>ret params. fn = Some (ret, params) \<and> 14 \<le> length params) \<Longrightarrow>
   \<exists>st'. Unpack_loop cc sptr fn tbl st = Inr st'"
proof (induction tbl arbitrary: st)
  case Nil
  then show ?case by simp
next
  case (Cons e es)
  from Unpack_entry_ok [OF Cons.prems] obtain st' where "Unpack_entry cc sptr fn e st = Inr st'"
    by blast
  with Cons.IH [OF Cons.prems] show ?case by simp
qed

lemma Pack_native_ok:
  assumes "FnType cc = Some (ret, params)"
  shows "\<exists>st. Pack cc tbl rf (LlvmFunction ret params) si = Inr st"
proof (cases cc)
  case SPTR
  have "\<exists>st. Pack_loop SPTR (Argument 0) tbl (rf, None, si) = Inr st"
    by (rule Pack_loop_ok) simp
  moreover from SPTR assms have "params = [Int8PtrTy]" by (auto simp: FnType_def)
  ultimately show ?thesis using SPTR
    by (simp add: Pack_def dyn_cast_Function_def arg_begin_at_def CpuStructParamIdx_def)
next
  case HHVM
  have "\<exists>st. Pack_loop HHVM (Argument 1) tbl (rf, Some (UndefValue ret), si) = Inr st"
    by (rule Pack_loop_ok) simp
  moreover from HHVM assms have "length params = 14" by (auto simp: FnType_def)
  ultimately show ?thesis using HHVM
    by (simp add: Pack_def dyn_cast_Function_def arg_begin_at_def CpuStructParamIdx_def
        getReturnType_def)
next
  case (UNKNOWN n)
  with assms show ?thesis by (simp add: FnType_def)
qed

lemma Unpack_native_ok:
  assumes "FnType cc = Some (ret, params)"
  shows "\<exists>st. Unpack cc tbl rf (LlvmFunction ret params) lv = Inr st"
proof (cases cc)
  case SPTR
  have "\<exists>st. Unpack_loop SPTR (Argument 0) (Some (ret, params)) tbl (rf, lv) = Inr st"
    by (rule Unpack_loop_ok) simp
  moreover from SPTR assms have "params = [Int8PtrTy]" by (auto simp: FnType_def)
  ultimately show ?thesis using SPTR
    by (simp add: Unpack_def dyn_cast_Function_def arg_begin_at_def CpuStructParamIdx_def)
next
  case HHVM
  from HHVM assms have len: "length params = 14" by (auto simp: FnType_def)
  have "\<exists>st. Unpack_loop HHVM (Argument 1) (Some (ret, params)) tbl (rf, lv) = Inr st"
    by (rule Unpack_loop_ok) (simp add: len)
  with HHVM assms len show ?thesis
    by (simp add: Unpack_def dyn_cast_Function_def arg_begin_at_def CpuStructParamIdx_def)
next
  case (UNKNOWN n)
  with assms show ?thesis by (simp add: FnType_def)
qed

text \<open>
  C9. Under the fixed-physical-register (HHVM) convention \<open>Pack\<close> and \<open>Unpack\<close> need
  the native function as their value argument. With any other value the function
  pointer stays null: \<open>Pack\<close> dereferences it for the return type of the aggregate, and
  \<open>Unpack\<close> dereferences it at the first table entry whose register has a native
  argument. With the native function of the convention both return normally.
\<close>

theorem hhvm_needs_function_value:
  "(dyn_cast_Function val = None \<longrightarrow>
      Pack HHVM tbl rf val si = Inl NullPointerDereference \<and>
      (list_ex (unpack_listed HHVM) tbl \<longrightarrow>
         Unpack HHVM tbl rf val lv = Inl NullPointerDereference)) \<and>
   (FnType HHVM = Some (ret, params) \<longrightarrow>
      (\<exists>st. Pack HHVM tbl rf (LlvmFunction ret params) si = Inr st) \<and>
      (\<exists>st. Unpack HHVM tbl rf (LlvmFunction ret params) lv = Inr st))"
proof (intro conjI impI)
  assume "dyn_cast_Function val = None"
  then show "Pack HHVM tbl rf val si = Inl NullPointerDereference"
    by (rule Pack_HHVM_null)
next
  assume "dyn_cast_Function val = None"
    and "list_ex (unpack_listed HHVM) tbl"
  then show "Unpack HHVM tbl rf val lv = Inl NullPointerDereference"
    by (rule Unpack_HHVM_null)
next
  assume "FnType HHVM = Some (ret, params)"
  then show "\<exists>st. Pack HHVM tbl rf (LlvmFunction ret params) si = Inr st"
    by (rule Pack_native_ok)
next
  assume "FnType HHVM = Some (ret, params)"
  then show "\<exists>st. Unpack HHVM tbl rf (LlvmFunction ret params) lv = Inr st"
    by (rule Unpack_native_ok)
qed


theorem hhvm_needs_function_value_witness:
  "dyn_cast_Function (Argument 0) = None \<and>
   list_ex (unpack_listed HHVM) cpu_struct_entries \<and>
   Pack HHVM cpu_struct_entries (RegFile_new ExitBlock) (Argument 0) None
     = Inl NullPointerDereference \<and>
   Unpack HHVM cpu_struct_entries (RegFile_new ExitBlock) (Argument 0) None
     = Inl NullPointerDereference \<and>
   (\<exists>ret params. FnType HHVM = Some (ret, params) \<and>
      (\<exists>st. Pack HHVM cpu_struct_entries (RegFile_new ExitBlock) (LlvmFunction ret params) None
              = Inr st) \<and>
      (\<exists>st. Unpack HHVM cpu_struct_entries (RegFile_new ExitBlock) (LlvmFunction ret params) None
              = Inr st))"
proof -
  have a: "dyn_cast_Function (Argument 0) = None" by (simp add: dyn_cast_Function_def)
  obtain ret params where b: "FnType HHVM = Some (ret, params)" by (simp add: FnType_def)
  from hhvm_needs_function_value [of "Argument 0" cpu_struct_entries "RegFile_new ExitBlock"
      None None ret params] a b cpu_struct_entries_listed
  show ?thesis by blast
qed

lemma insert_block_GetReg: "insert_block (snd (GetReg rf reg facet)) = insert_block rf"
  by (simp add: GetReg_def Let_def split: option.splits)

lemma insert_block_SetReg: "insert_block (SetReg rf reg facet v c) = insert_block rf"
  by (simp add: SetReg_def)

lemma insert_block_emit: "insert_block (emit i rf) = insert_block rf @ [i]"
  by (simp add: emit_def)

lemma push_back_map_option: "push_back vec x = map_option (\<lambda>xs. xs @ [x]) vec"
  by (cases vec) (simp_all add: push_back_def)

lemma Pack_entry_effects:
  assumes "Pack_entry cc sptr e (rf, rv, si) = Inr (rf', rv', si')"
  shows "\<exists>s ins i. si' = push_back si s \<and> store_matches cc sptr e s \<and>
           insert_block rf' = insert_block rf @ ins \<and> filter is_side_effect ins = [i] \<and>
           pack_effect_matches cc sptr e i"
proof -
  obtain off reg facet where e: "e = (off, reg, facet)" by (cases e) auto
  obtain v rf1 where g: "GetReg rf reg facet = (v, rf1)" by (cases "GetReg rf reg facet") auto
  from insert_block_GetReg [of rf reg facet] g have ib: "insert_block rf1 = insert_block rf"
    by simp
  show ?thesis
  proof (cases "pack_listed cc e")
    case True
    then have l: "cc = HHVM" "0 \<le> Pack_ins_idx reg" by (simp_all add: pack_listed_def e)
    from assms e g l obtain agg where rv: "rv = Some agg"
      by (cases rv) (simp_all add: Pack_entry_def Let_def)
    let ?ins = "InsertValue agg v (nat (Pack_ins_idx reg))"
    from assms e g l rv have r: "rf' = emit ?ins rf1" "si' = push_back si None"
      by (simp_all add: Pack_entry_def Let_def)
    show ?thesis
    proof (intro exI conjI)
      show "si' = push_back si None" by (rule r(2))
      show "store_matches cc sptr e None" using True by (simp add: store_matches_def)
      show "insert_block rf' = insert_block rf @ [?ins]" by (simp add: r(1) insert_block_emit ib)
      show "filter is_side_effect [?ins] = [?ins]" by simp
      show "pack_effect_matches cc sptr e ?ins"
        using True l by (simp add: pack_effect_matches_def e)
    qed
  next
    case False
    let ?gep = "ConstGEP1_64 sptr off"
    let ?ptr = "PointerCast ?gep (FacetPtrTy facet)"
    let ?st = "StoreInst v ?ptr"
    from False have nl: "\<not> (cc = HHVM \<and> 0 \<le> Pack_ins_idx reg)" by (simp add: pack_listed_def e)
    from assms e g nl
    have r: "rf' = emit ?st (emit ?ptr (emit ?gep rf1))" "si' = push_back si (Some ?st)"
      by (auto simp: Pack_entry_def Let_def split: if_splits)
    show ?thesis
    proof (intro exI conjI)
      show "si' = push_back si (Some ?st)" by (rule r(2))
      show "store_matches cc sptr e (Some ?st)"
        using False by (simp add: store_matches_def entry_ptr_def e)
      show "insert_block rf' = insert_block rf @ [?gep, ?ptr, ?st]"
        by (simp add: r(1) insert_block_emit ib)
      show "filter is_side_effect [?gep, ?ptr, ?st] = [?st]" by simp
      show "pack_effect_matches cc sptr e ?st"
        using False by (simp add: pack_effect_matches_def entry_ptr_def e)
    qed
  qed
qed

lemma Pack_loop_effects:
  "Pack_loop cc sptr tbl (rf, rv, si) = Inr (rf', rv', si') \<Longrightarrow>
   \<exists>new ins. si' = map_option (\<lambda>xs. xs @ new) si \<and>
      list_all2 (store_matches cc sptr) tbl new \<and>
      insert_block rf' = insert_block rf @ ins \<and>
      list_all2 (pack_effect_matches cc sptr) tbl (filter is_side_effect ins)"
proof (induction tbl arbitrary: rf rv si)
  case Nil
  then show ?case by (simp add: option.map_ident)
next
  case (Cons e es)
  from Cons.prems obtain rf1 rv1 si1
    where step: "Pack_entry cc sptr e (rf, rv, si) = Inr (rf1, rv1, si1)"
      and rest: "Pack_loop cc sptr es (rf1, rv1, si1) = Inr (rf', rv', si')"
    by (auto split: sum.splits)
  from Pack_entry_effects [OF step] obtain s ins i
    where s: "si1 = push_back si s" "store_matches cc sptr e s"
      "insert_block rf1 = insert_block rf @ ins" "filter is_side_effect ins = [i]"
      "pack_effect_matches cc sptr e i" by blast
  from Cons.IH [OF rest] obtain new ins'
    where n: "si' = map_option (\<lambda>xs. xs @ new) si1" "list_all2 (store_matches cc sptr) es new"
      "insert_block rf' = insert_block rf1 @ ins'"
      "list_all2 (pack_effect_matches cc sptr) es (filter is_side_effect ins')" by blast
  show ?case
  proof (intro exI conjI)
    show "si' = map_option (\<lambda>xs. xs @ (s # new)) si"
      using n(1) s(1) by (cases si) (simp_all add: push_back_def)
    show "list_all2 (store_matches cc sptr) (e # es) (s # new)" using s(2) n(2) by simp
    show "insert_block rf' = insert_block rf @ (ins @ ins')" using s(3) n(3) by simp
    show "list_all2 (pack_effect_matches cc sptr) (e # es) (filter is_side_effect (ins @ ins'))"
      using s(4,5) n(4) by simp
  qed
qed

lemma Pack_sptr:
  "Pack cc tbl rf val si = Inr st \<Longrightarrow>
   \<exists>rv. Pack_loop cc (sptr_of cc val) tbl (rf, rv, si) = Inr st"
  by (auto simp: Pack_def sptr_of_def arg_begin_at_def Let_def
      split: sum.splits if_splits option.splits)

lemma Unpack_sptr:
  "Unpack cc tbl rf val lv = Inr st \<Longrightarrow>
   Unpack_loop cc (sptr_of cc val) (dyn_cast_Function val) tbl (rf, lv) = Inr st"
  by (auto simp: Unpack_def sptr_of_def arg_begin_at_def Let_def
      split: sum.splits if_splits option.splits)

text \<open>\<open>Pack\<close> reads every register of the table: a register that has no value in the
  block gets a merge placeholder, and a placeholder stays outstanding.\<close>

lemma Pack_entry_empty_phis:
  assumes "Pack_entry cc sptr e (rf, rv, si) = Inr (rf', rv', si')"
  shows "set (empty_phis rf) \<subseteq> set (empty_phis rf')"
    and "reg_values rf (snd e) = None \<Longrightarrow> snd e \<in> set (empty_phis rf')"
  using assms
  by (auto simp: Pack_entry_def GetReg_def emit_def Let_def
      split: prod.splits option.splits if_splits)

lemma Pack_loop_empty_phis:
  "Pack_loop cc sptr tbl (rf, rv, si) = Inr (rf', rv', si') \<Longrightarrow>
   set (empty_phis rf) \<subseteq> set (empty_phis rf')"
proof (induction tbl arbitrary: rf rv si)
  case Nil
  then show ?case by simp
next
  case (Cons e es)
  from Cons.prems obtain rf1 rv1 si1
    where step: "Pack_entry cc sptr e (rf, rv, si) = Inr (rf1, rv1, si1)"
      and rest: "Pack_loop cc sptr es (rf1, rv1, si1) = Inr (rf', rv', si')"
    by (auto split: sum.splits)
  from Pack_entry_empty_phis(1) [OF step] Cons.IH [OF rest] show ?case by blast
qed

lemma Unpack_entry_effects:
  assumes "Unpack_entry cc sptr fn e (rf, lv) = Inr (rf', lv')"
  shows "lv' = push_back lv (unpack_value cc sptr e) \<and>
         (\<exists>ins. insert_block rf' = insert_block rf @ ins \<and>
            filter is_side_effect ins = filter is_side_effect [unpack_value cc sptr e])"
proof -
  obtain off reg facet where e: "e = (off, reg, facet)" by (cases e) auto
  show ?thesis
  proof (cases "unpack_listed cc e")
    case True
    with assms e show ?thesis
      by (auto simp: Unpack_entry_def Let_def unpack_listed_def unpack_value_def
          insert_block_SetReg arg_begin_at_def split: sum.splits option.splits if_splits)
  next
    case False
    with assms e show ?thesis
      by (auto simp: Unpack_entry_def Let_def unpack_listed_def unpack_value_def
          insert_block_SetReg insert_block_emit entry_ptr_def
          split: sum.splits if_splits)
  qed
qed

lemma Unpack_loop_effects:
  "Unpack_loop cc sptr fn tbl (rf, lv) = Inr (rf', lv') \<Longrightarrow>
   lv' = map_option (\<lambda>xs. xs @ map (unpack_value cc sptr) tbl) lv \<and>
   (\<exists>ins. insert_block rf' = insert_block rf @ ins \<and>
      filter is_side_effect ins = filter is_side_effect (map (unpack_value cc sptr) tbl))"
proof (induction tbl arbitrary: rf lv)
  case Nil
  then show ?case by (simp add: option.map_ident)
next
  case (Cons e es)
  from Cons.prems obtain rf1 lv1
    where step: "Unpack_entry cc sptr fn e (rf, lv) = Inr (rf1, lv1)"
      and rest: "Unpack_loop cc sptr fn es (rf1, lv1) = Inr (rf', lv')"
    by (auto split: sum.splits)
  from Unpack_entry_effects [OF step] obtain ins
    where s: "lv1 = push_back lv (unpack_value cc sptr e)"
      "insert_block rf1 = insert_block rf @ ins"
      "filter is_side_effect ins = filter is_side_effect [unpack_value cc sptr e]" by blast
  from Cons.IH [OF rest] obtain ins'
    where n: "lv' = map_option (\<lambda>xs. xs @ map (unpack_value cc sptr) es) lv1"
      "insert_block rf' = insert_block rf1 @ ins'"
      "filter is_side_effect ins' = filter is_side_effect (map (unpack_value cc sptr) es)"
    by blast
  have "lv' = map_option (\<lambda>xs. xs @ map (unpack_value cc sptr) (e # es)) lv"
    using n(1) s(1) by (cases lv) (simp_all add: push_back_def)
  moreover have "insert_block rf' = insert_block rf @ (ins @ ins')" using s(2) n(2) by simp
  moreover have "filter is_side_effect (ins @ ins')
      = filter is_side_effect (map (unpack_value cc sptr) (e # es))"
    using s(3) n(3) by simp
  ultimately show ?case by blast
qed

text \<open>
  C6. Under either convention, every call of \<open>Pack\<close> and every call of \<open>Unpack\<close> that
  returns, with or without a vector to record into, processes each entry of the offset
  table exactly once and in table order. \<open>Pack\<close> emits one side effect per entry (an
  aggregate insertion for a listed register, a store to the slot of the entry
  otherwise), the \<open>i\<close>-th for the \<open>i\<close>-th entry, and pushes one element per entry to
  \<open>store_insts\<close> when the vector is given. \<open>Unpack\<close> gives one value per entry (the
  native argument of a listed register, a load from the slot of the entry otherwise),
  emits the loads in table order, and pushes the values in that order to
  \<open>loaded_vals\<close> when the vector is given. Both are functions of their inputs, so equal
  inputs give the same sequence.
\<close>

theorem pack_unpack_table_order:
  "(Pack cc tbl rf val si = Inr (rf', ret_val, si') \<longrightarrow>
      (\<exists>new ins. si' = map_option (\<lambda>xs. xs @ new) si \<and>
         list_all2 (store_matches cc (sptr_of cc val)) tbl new \<and>
         insert_block rf' = insert_block rf @ ins \<and>
         list_all2 (pack_effect_matches cc (sptr_of cc val)) tbl (filter is_side_effect ins))) \<and>
   (Unpack cc tbl rf val lv = Inr (rf'', lv') \<longrightarrow>
      lv' = map_option (\<lambda>xs. xs @ map (unpack_value cc (sptr_of cc val)) tbl) lv \<and>
      (\<exists>ins. insert_block rf'' = insert_block rf @ ins \<and>
         filter is_side_effect ins
           = filter is_side_effect (map (unpack_value cc (sptr_of cc val)) tbl)))"
proof (intro conjI impI)
  assume "Pack cc tbl rf val si = Inr (rf', ret_val, si')"
  from Pack_sptr [OF this] obtain rv
    where "Pack_loop cc (sptr_of cc val) tbl (rf, rv, si) = Inr (rf', ret_val, si')" by blast
  then show "\<exists>new ins. si' = map_option (\<lambda>xs. xs @ new) si \<and>
         list_all2 (store_matches cc (sptr_of cc val)) tbl new \<and>
         insert_block rf' = insert_block rf @ ins \<and>
         list_all2 (pack_effect_matches cc (sptr_of cc val)) tbl (filter is_side_effect ins)"
    by (rule Pack_loop_effects)
next
  assume u: "Unpack cc tbl rf val lv = Inr (rf'', lv')"
  from Unpack_loop_effects [OF Unpack_sptr [OF u]]
  show "lv' = map_option (\<lambda>xs. xs @ map (unpack_value cc (sptr_of cc val)) tbl) lv"
    and "\<exists>ins. insert_block rf'' = insert_block rf @ ins \<and>
         filter is_side_effect ins
           = filter is_side_effect (map (unpack_value cc (sptr_of cc val)) tbl)"
    by blast+
qed

theorem pack_unpack_table_order_witness:
  "\<exists>ret params.
     (\<exists>rf' rv si' new ins.
        Pack HHVM cpu_struct_entries (RegFile_new ExitBlock) (LlvmFunction ret params) (Some [])
          = Inr (rf', rv, si') \<and>
        si' = Some new \<and>
        list_all2 (store_matches HHVM (sptr_of HHVM (LlvmFunction ret params)))
          cpu_struct_entries new \<and>
        insert_block rf' = insert_block (RegFile_new ExitBlock) @ ins \<and>
        list_all2 (pack_effect_matches HHVM (sptr_of HHVM (LlvmFunction ret params)))
          cpu_struct_entries (filter is_side_effect ins)) \<and>
     (\<exists>rf' rv si' ins.
        Pack HHVM cpu_struct_entries (RegFile_new ExitBlock) (LlvmFunction ret params) None
          = Inr (rf', rv, si') \<and>
        si' = None \<and>
        insert_block rf' = insert_block (RegFile_new ExitBlock) @ ins \<and>
        list_all2 (pack_effect_matches HHVM (sptr_of HHVM (LlvmFunction ret params)))
          cpu_struct_entries (filter is_side_effect ins)) \<and>
     (\<exists>rf'' lv'.
        Unpack HHVM cpu_struct_entries (RegFile_new EntryBlock) (LlvmFunction ret params) (Some [])
          = Inr (rf'', lv') \<and>
        lv' = Some (map (unpack_value HHVM (sptr_of HHVM (LlvmFunction ret params)))
                      cpu_struct_entries)) \<and>
     (\<exists>rf'' lv' ins.
        Unpack HHVM cpu_struct_entries (RegFile_new EntryBlock) (LlvmFunction ret params) None
          = Inr (rf'', lv') \<and>
        lv' = None \<and>
        insert_block rf'' = insert_block (RegFile_new EntryBlock) @ ins \<and>
        filter is_side_effect ins
          = filter is_side_effect
              (map (unpack_value HHVM (sptr_of HHVM (LlvmFunction ret params)))
                 cpu_struct_entries))"
proof -
  obtain ret params where t: "FnType HHVM = Some (ret, params)" by (simp add: FnType_def)
  let ?fn = "LlvmFunction ret params"
  from Pack_native_ok [OF t] obtain rf1 rv1 si1
    where p1: "Pack HHVM cpu_struct_entries (RegFile_new ExitBlock) ?fn (Some [])
        = Inr (rf1, rv1, si1)"
    by (metis prod_cases3)
  from Pack_native_ok [OF t] obtain rf2 rv2 si2
    where p2: "Pack HHVM cpu_struct_entries (RegFile_new ExitBlock) ?fn None
        = Inr (rf2, rv2, si2)"
    by (metis prod_cases3)
  from Unpack_native_ok [OF t] obtain rf3 lv3
    where u1: "Unpack HHVM cpu_struct_entries (RegFile_new EntryBlock) ?fn (Some [])
        = Inr (rf3, lv3)"
    by (metis surj_pair)
  from Unpack_native_ok [OF t] obtain rf4 lv4
    where u2: "Unpack HHVM cpu_struct_entries (RegFile_new EntryBlock) ?fn None
        = Inr (rf4, lv4)"
    by (metis surj_pair)
  from pack_unpack_table_order [of HHVM cpu_struct_entries "RegFile_new ExitBlock" ?fn
      "Some []" rf1 rv1 si1] p1
  have a: "\<exists>rf' rv si' new ins.
        Pack HHVM cpu_struct_entries (RegFile_new ExitBlock) ?fn (Some []) = Inr (rf', rv, si') \<and>
        si' = Some new \<and>
        list_all2 (store_matches HHVM (sptr_of HHVM ?fn)) cpu_struct_entries new \<and>
        insert_block rf' = insert_block (RegFile_new ExitBlock) @ ins \<and>
        list_all2 (pack_effect_matches HHVM (sptr_of HHVM ?fn))
          cpu_struct_entries (filter is_side_effect ins)"
    by auto
  from pack_unpack_table_order [of HHVM cpu_struct_entries "RegFile_new ExitBlock" ?fn
      None rf2 rv2 si2] p2
  have b: "\<exists>rf' rv si' ins.
        Pack HHVM cpu_struct_entries (RegFile_new ExitBlock) ?fn None = Inr (rf', rv, si') \<and>
        si' = None \<and>
        insert_block rf' = insert_block (RegFile_new ExitBlock) @ ins \<and>
        list_all2 (pack_effect_matches HHVM (sptr_of HHVM ?fn))
          cpu_struct_entries (filter is_side_effect ins)"
    by auto
  from pack_unpack_table_order [where cc = HHVM and tbl = cpu_struct_entries
      and rf = "RegFile_new EntryBlock" and val = ?fn and lv = "Some []"
      and rf'' = rf3 and lv' = lv3] u1
  have c: "\<exists>rf'' lv'.
        Unpack HHVM cpu_struct_entries (RegFile_new EntryBlock) ?fn (Some []) = Inr (rf'', lv') \<and>
        lv' = Some (map (unpack_value HHVM (sptr_of HHVM ?fn)) cpu_struct_entries)"
    by auto
  from pack_unpack_table_order [where cc = HHVM and tbl = cpu_struct_entries
      and rf = "RegFile_new EntryBlock" and val = ?fn and lv = None
      and rf'' = rf4 and lv' = lv4] u2
  have d: "\<exists>rf'' lv' ins.
        Unpack HHVM cpu_struct_entries (RegFile_new EntryBlock) ?fn None = Inr (rf'', lv') \<and>
        lv' = None \<and>
        insert_block rf'' = insert_block (RegFile_new EntryBlock) @ ins \<and>
        filter is_side_effect ins
          = filter is_side_effect (map (unpack_value HHVM (sptr_of HHVM ?fn)) cpu_struct_entries)"
    by auto
  from a b c d show ?thesis by blast
qed

lemma reg_values_emit: "reg_values (emit i rf) = reg_values rf"
  by (simp add: emit_def)

lemma empty_phis_emit: "empty_phis (emit i rf) = empty_phis rf"
  by (simp add: emit_def)

lemma empty_phis_SetReg: "empty_phis (SetReg rf reg facet v c) = empty_phis rf"
  by (simp add: SetReg_def)

lemma reg_values_SetReg_same: "reg_values (SetReg rf reg facet v c) (reg, facet) = Some v"
  by (simp add: SetReg_def)

lemma reg_values_SetReg_other:
  "fst k \<noteq> reg \<Longrightarrow> reg_values (SetReg rf reg facet v c) k = reg_values rf k"
  by (cases k) (simp add: SetReg_def)

lemma Unpack_entry_SPTR:
  "Unpack_entry SPTR sptr fn e (rf, lv) =
     Inr (SetReg (emit (LoadInst (entry_ptr sptr e))
                    (emit (entry_ptr sptr e) (emit (ConstGEP1_64 sptr (fst e)) rf)))
            (fst (snd e)) (snd (snd e)) (LoadInst (entry_ptr sptr e)) False,
          push_back lv (LoadInst (entry_ptr sptr e)))"
  by (cases e) (simp add: Unpack_entry_def Let_def entry_ptr_def)

lemma Unpack_loop_SPTR_other:
  "Unpack_loop SPTR sptr fn es (rf, lv) = Inr (rf', lv') \<Longrightarrow>
   fst k \<notin> set (map (\<lambda>e. fst (snd e)) es) \<Longrightarrow>
   reg_values rf' k = reg_values rf k \<and> empty_phis rf' = empty_phis rf"
proof (induction es arbitrary: rf lv)
  case Nil
  then show ?case by simp
next
  case (Cons e es)
  from Cons.prems(2) have k: "fst k \<noteq> fst (snd e)" "fst k \<notin> set (map (\<lambda>e. fst (snd e)) es)"
    by auto
  from Cons.prems(1) Cons.IH [OF _ k(2)] k(1) show ?case
    by (simp add: Unpack_entry_SPTR reg_values_SetReg_other reg_values_emit empty_phis_SetReg
        empty_phis_emit)
qed

lemma Unpack_loop_SPTR_empty_phis:
  "Unpack_loop SPTR sptr fn es (rf, lv) = Inr (rf', lv') \<Longrightarrow> empty_phis rf' = empty_phis rf"
proof (induction es arbitrary: rf lv)
  case Nil
  then show ?case by simp
next
  case (Cons e es)
  from Cons.prems(1) Cons.IH show ?case
    by (simp add: Unpack_entry_SPTR empty_phis_SetReg empty_phis_emit)
qed

lemma Unpack_loop_SPTR_values:
  "distinct (map (\<lambda>e. fst (snd e)) es) \<Longrightarrow>
   Unpack_loop SPTR sptr fn es (rf, lv) = Inr (rf', lv') \<Longrightarrow> e \<in> set es \<Longrightarrow>
   reg_values rf' (fst (snd e), snd (snd e)) = Some (LoadInst (entry_ptr sptr e))"
proof (induction es arbitrary: rf lv)
  case Nil
  then show ?case by simp
next
  case (Cons x xs)
  let ?rf1 = "SetReg (emit (LoadInst (entry_ptr sptr x))
                    (emit (entry_ptr sptr x) (emit (ConstGEP1_64 sptr (fst x)) rf)))
            (fst (snd x)) (snd (snd x)) (LoadInst (entry_ptr sptr x)) False"
  from Cons.prems(2)
  have rest: "Unpack_loop SPTR sptr fn xs (?rf1, push_back lv (LoadInst (entry_ptr sptr x)))
      = Inr (rf', lv')"
    by (simp add: Unpack_entry_SPTR)
  from Cons.prems(1) have d: "distinct (map (\<lambda>e. fst (snd e)) xs)"
    and nx: "fst (snd x) \<notin> set (map (\<lambda>e. fst (snd e)) xs)" by auto
  show ?case
  proof (cases "e = x")
    case True
    from Unpack_loop_SPTR_other [OF rest, of "(fst (snd x), snd (snd x))"] nx
    have "reg_values rf' (fst (snd x), snd (snd x)) = reg_values ?rf1 (fst (snd x), snd (snd x))"
      by simp
    moreover have "reg_values ?rf1 (fst (snd x), snd (snd x)) = Some (LoadInst (entry_ptr sptr x))"
      by (rule reg_values_SetReg_same)
    ultimately show ?thesis using True by simp
  next
    case False
    with Cons.prems(3) have "e \<in> set xs" by simp
    from Cons.IH [OF d rest this] show ?thesis .
  qed
qed

lemma GetReg_found: "reg_values rf (reg, facet) = Some v \<Longrightarrow> GetReg rf reg facet = (v, rf)"
  by (simp add: GetReg_def)

lemma Pack_entry_SPTR_found:
  "reg_values rf (fst (snd e), snd (snd e)) = Some v \<Longrightarrow>
   Pack_entry SPTR sptr e (rf, rv, si) =
     Inr (emit (StoreInst v (entry_ptr sptr e))
            (emit (entry_ptr sptr e) (emit (ConstGEP1_64 sptr (fst e)) rf)),
          rv, push_back si (Some (StoreInst v (entry_ptr sptr e))))"
  by (cases e) (simp add: Pack_entry_def Let_def entry_ptr_def GetReg_found)

lemma Pack_loop_SPTR_found:
  "list_all (\<lambda>e. reg_values rf (fst (snd e), snd (snd e)) = Some (LoadInst (entry_ptr sptr e))) es \<Longrightarrow>
   \<exists>rf'. Pack_loop SPTR sptr es (rf, rv, Some si) =
      Inr (rf', rv, Some (si @ map (\<lambda>e. Some (StoreInst (LoadInst (entry_ptr sptr e))
                                                    (entry_ptr sptr e))) es)) \<and>
      reg_values rf' = reg_values rf \<and> empty_phis rf' = empty_phis rf"
proof (induction es arbitrary: rf si)
  case Nil
  then show ?case by simp
next
  case (Cons x xs)
  let ?st = "StoreInst (LoadInst (entry_ptr sptr x)) (entry_ptr sptr x)"
  let ?rf1 = "emit ?st (emit (entry_ptr sptr x) (emit (ConstGEP1_64 sptr (fst x)) rf))"
  from Cons.prems have x: "reg_values rf (fst (snd x), snd (snd x)) = Some (LoadInst (entry_ptr sptr x))"
    and xs: "list_all (\<lambda>e. reg_values rf (fst (snd e), snd (snd e)) = Some (LoadInst (entry_ptr sptr e))) xs"
    by auto
  have rv1: "reg_values ?rf1 = reg_values rf" and ep1: "empty_phis ?rf1 = empty_phis rf"
    by (simp_all add: reg_values_emit empty_phis_emit)
  from xs have "list_all (\<lambda>e. reg_values ?rf1 (fst (snd e), snd (snd e)) = Some (LoadInst (entry_ptr sptr e))) xs"
    by (simp add: rv1)
  from Cons.IH [OF this, of "si @ [Some ?st]"] obtain rf'
    where r: "Pack_loop SPTR sptr xs (?rf1, rv, Some ((si @ [Some ?st])))
        = Inr (rf', rv, Some ((si @ [Some ?st]) @ map (\<lambda>e. Some (StoreInst (LoadInst (entry_ptr sptr e))
                                                    (entry_ptr sptr e))) xs))"
      and k: "reg_values rf' = reg_values ?rf1" "empty_phis rf' = empty_phis ?rf1" by blast
  from r k rv1 ep1 show ?case
    by (simp add: Pack_entry_SPTR_found [OF x] push_back_def)
qed

lemma Unpack_loop_SPTR_insts:
  "Unpack_loop SPTR sptr fn es (rf, lv) = Inr (rf', lv') \<Longrightarrow>
   insert_block rf' = insert_block rf @
     concat (map (\<lambda>e. [ConstGEP1_64 sptr (fst e), entry_ptr sptr e,
                        LoadInst (entry_ptr sptr e)]) es)"
proof (induction es arbitrary: rf lv)
  case Nil
  then show ?case by simp
next
  case (Cons e es)
  from Cons.prems Cons.IH show ?case
    by (simp add: Unpack_entry_SPTR insert_block_SetReg insert_block_emit)
qed

lemma Pack_loop_SPTR_insts:
  "list_all (\<lambda>e. reg_values rf (fst (snd e), snd (snd e)) = Some (LoadInst (entry_ptr sptr e))) es \<Longrightarrow>
   Pack_loop SPTR sptr es (rf, rv, si) = Inr (rf', rv', si') \<Longrightarrow>
   insert_block rf' = insert_block rf @
     concat (map (\<lambda>e. [ConstGEP1_64 sptr (fst e), entry_ptr sptr e,
                        StoreInst (LoadInst (entry_ptr sptr e)) (entry_ptr sptr e)]) es)"
proof (induction es arbitrary: rf si)
  case Nil
  then show ?case by simp
next
  case (Cons x xs)
  let ?st = "StoreInst (LoadInst (entry_ptr sptr x)) (entry_ptr sptr x)"
  let ?rf1 = "emit ?st (emit (entry_ptr sptr x) (emit (ConstGEP1_64 sptr (fst x)) rf))"
  from Cons.prems(1)
  have x: "reg_values rf (fst (snd x), snd (snd x)) = Some (LoadInst (entry_ptr sptr x))"
    and xs: "list_all (\<lambda>e. reg_values rf (fst (snd e), snd (snd e))
        = Some (LoadInst (entry_ptr sptr e))) xs"
    by auto
  from xs have xs1: "list_all (\<lambda>e. reg_values ?rf1 (fst (snd e), snd (snd e))
        = Some (LoadInst (entry_ptr sptr e))) xs"
    by (simp add: reg_values_emit)
  from Cons.prems(2)
  have "Pack_loop SPTR sptr xs (?rf1, rv, push_back si (Some ?st)) = Inr (rf', rv', si')"
    by (simp add: Pack_entry_SPTR_found [OF x])
  from Cons.IH [OF xs1 this] show ?case by (simp add: insert_block_emit)
qed

text \<open>
  C4. For the state-pointer (SPTR) convention and a table that binds each register
  once: \<open>Unpack\<close> loads, for every entry, from the slot of the entry; \<open>Pack\<close> run right
  after it on the resulting register file stores, for every entry and in table order,
  exactly the value that \<open>Unpack\<close> loaded from the slot of the entry back to that slot,
  and finds every value in the register file (it creates no placeholder). The
  instructions the two calls emit are given in full: per entry the address of the
  slot, its cast and the load, then per entry the address of the slot, its cast and
  the store of the loaded value, so the emitted code writes to each slot what it read
  from it.
\<close>

theorem sptr_pack_after_unpack:
  assumes d: "distinct (map (\<lambda>e. fst (snd e)) tbl)"
    and u: "Unpack SPTR tbl rf val (Some []) = Inr (rf1, lv)"
  shows "lv = Some (map (\<lambda>e. LoadInst (entry_ptr (sptr_of SPTR val) e)) tbl) \<and>
     insert_block rf1 = insert_block rf @
       concat (map (\<lambda>e. [ConstGEP1_64 (sptr_of SPTR val) (fst e),
                          entry_ptr (sptr_of SPTR val) e,
                          LoadInst (entry_ptr (sptr_of SPTR val) e)]) tbl) \<and>
     (\<exists>rf2. Pack SPTR tbl rf1 val (Some []) =
        Inr (rf2, None, Some (map (\<lambda>e. Some (StoreInst (LoadInst (entry_ptr (sptr_of SPTR val) e))
                                                 (entry_ptr (sptr_of SPTR val) e))) tbl)) \<and>
        insert_block rf2 = insert_block rf1 @
          concat (map (\<lambda>e. [ConstGEP1_64 (sptr_of SPTR val) (fst e),
                             entry_ptr (sptr_of SPTR val) e,
                             StoreInst (LoadInst (entry_ptr (sptr_of SPTR val) e))
                               (entry_ptr (sptr_of SPTR val) e)]) tbl) \<and>
        empty_phis rf2 = empty_phis rf)"
proof -
  let ?sptr = "sptr_of SPTR val"
  from Unpack_sptr [OF u]
  have ul: "Unpack_loop SPTR ?sptr (dyn_cast_Function val) tbl (rf, Some []) = Inr (rf1, lv)" .
  from Unpack_loop_effects [OF ul]
  have lv: "lv = Some (map (unpack_value SPTR ?sptr) tbl)" by simp
  have uv: "unpack_value SPTR ?sptr = (\<lambda>e. LoadInst (entry_ptr ?sptr e))"
    by (rule ext) (simp add: unpack_value_def unpack_listed_def)
  have vals: "list_all (\<lambda>e. reg_values rf1 (fst (snd e), snd (snd e))
      = Some (LoadInst (entry_ptr ?sptr e))) tbl"
    unfolding list_all_iff using Unpack_loop_SPTR_values [OF d ul] by blast
  from Pack_loop_SPTR_found [OF vals, of None "[]"] obtain rf2
    where p: "Pack_loop SPTR ?sptr tbl (rf1, None, Some []) =
      Inr (rf2, None, Some (map (\<lambda>e. Some (StoreInst (LoadInst (entry_ptr ?sptr e))
                                                    (entry_ptr ?sptr e))) tbl))"
      and ep: "empty_phis rf2 = empty_phis rf1" by auto
  have pk: "Pack SPTR tbl rf1 val (Some []) = Pack_loop SPTR ?sptr tbl (rf1, None, Some [])"
    using u by (auto simp: Pack_def Unpack_def sptr_of_def arg_begin_at_def Let_def
        split: sum.splits if_splits option.splits)
  from Unpack_loop_SPTR_empty_phis [OF ul] ep have "empty_phis rf2 = empty_phis rf" by simp
  with lv uv p pk Unpack_loop_SPTR_insts [OF ul] Pack_loop_SPTR_insts [OF vals p]
  show ?thesis by simp
qed

theorem sptr_pack_after_unpack_witness:
  "distinct (map (\<lambda>e. fst (snd e)) cpu_struct_entries) \<and>
   (\<exists>rf1 lv.
      Unpack SPTR cpu_struct_entries (RegFile_new EntryBlock) (Argument 0) (Some []) = Inr (rf1, lv) \<and>
      lv = Some (map (\<lambda>e. LoadInst (entry_ptr (sptr_of SPTR (Argument 0)) e)) cpu_struct_entries) \<and>
      (\<exists>rf2. Pack SPTR cpu_struct_entries rf1 (Argument 0) (Some []) =
         Inr (rf2, None,
              Some (map (\<lambda>e. Some (StoreInst (LoadInst (entry_ptr (sptr_of SPTR (Argument 0)) e))
                                       (entry_ptr (sptr_of SPTR (Argument 0)) e)))
                      cpu_struct_entries)) \<and>
         empty_phis rf2 = empty_phis (RegFile_new EntryBlock)))"
proof -
  have "\<exists>st. Unpack_loop SPTR (Argument 0) None cpu_struct_entries
      (RegFile_new EntryBlock, Some []) = Inr st"
    by (rule Unpack_loop_ok) simp
  then obtain rf1 lv
    where u: "Unpack SPTR cpu_struct_entries (RegFile_new EntryBlock) (Argument 0) (Some [])
        = Inr (rf1, lv)"
    by (auto simp: Unpack_def dyn_cast_Function_def)
  from sptr_pack_after_unpack [OF cpu_struct_entries_distinct u] u cpu_struct_entries_distinct
  show ?thesis by blast
qed

text \<open>
  C10. For every calling-convention value other than the two supported variants,
  \<open>FnType\<close> returns no function type (null), \<open>FnCallConv\<close> returns the default C
  convention tag and \<open>CpuStructParamIdx\<close> returns parameter index 0: the three functions
  give an unrecognized convention defaults and have no failing branch.
\<close>

theorem unrecognized_callconv_defaults:
  "cc \<noteq> SPTR \<and> cc \<noteq> HHVM \<longrightarrow>
     FnType cc = None \<and> FnCallConv cc = CallingConv_C \<and> CpuStructParamIdx cc = 0"
  by (cases cc) (simp_all add: FnType_def FnCallConv_def CpuStructParamIdx_def)

theorem unrecognized_callconv_defaults_witness:
  "UNKNOWN 0 \<noteq> SPTR \<and> UNKNOWN 0 \<noteq> HHVM \<and> FnType (UNKNOWN 0) = None
     \<and> FnCallConv (UNKNOWN 0) = CallingConv_C \<and> CpuStructParamIdx (UNKNOWN 0) = 0"
  using unrecognized_callconv_defaults [of "UNKNOWN 0"] by simp

section \<open>Properties of the function\<close>

subsection \<open>Block references\<close>

lemma map_fst_map_entry: "map fst (AList.map_entry k g xs) = map fst xs"
  by (induction xs) auto

lemma get_block_update_block:
  "get_block (update_block r g f) r' =
     (if r' = r then map_option g (get_block f r) else get_block f r')"
  by (cases r; cases r')
     (auto simp: get_block_def update_block_def map_of_map_entry split: option.splits)

lemma keys_update_block: "map fst (block_map (update_block r g f)) = map fst (block_map f)"
  by (cases r) (simp_all add: update_block_def map_fst_map_entry)

lemma update_block_fields:
  "cfg (update_block r g f) = cfg f"
  "llvm (update_block r g f) = llvm f"
  "entry_addr (update_block r g f) = entry_addr f"
  "llvm_callconv (update_block r g f) = llvm_callconv f"
  by (cases r; simp add: update_block_def)+

lemma map_entry_id:
  "map_of xs k = Some v \<Longrightarrow> g v = v \<Longrightarrow> AList.map_entry k g xs = xs"
  by (induction xs) (auto split: if_splits)

lemma update_block_id:
  "get_block f r = Some blk \<Longrightarrow> g blk = blk \<Longrightarrow> update_block r g f = f"
  by (cases r) (simp_all add: get_block_def update_block_def map_entry_id)

lemma get_block_AddrBlock_keys:
  "get_block f (AddrBlock a) \<noteq> None \<longleftrightarrow> a \<in> set (map fst (block_map f))"
  by (simp add: get_block_def map_of_eq_None_iff)

lemma ResolveAddr_keys:
  "map fst (block_map f') = map fst (block_map f) \<Longrightarrow> ResolveAddr f' v = ResolveAddr f v"
proof -
  assume k: "map fst (block_map f') = map fst (block_map f)"
  have "\<And>a. (map_of (block_map f') a = None) = (map_of (block_map f) a = None)"
    using k by (metis map_of_eq_None_iff set_map)
  then have "\<And>a. (case map_of (block_map f') a of Some blk \<Rightarrow> AddrBlock a | None \<Rightarrow> ExitBlock)
      = (case map_of (block_map f) a of Some blk \<Rightarrow> AddrBlock a | None \<Rightarrow> ExitBlock)"
    by (metis not_None_eq option.simps(4) option.simps(5))
  then show ?thesis
    by (simp add: ResolveAddr_def split: option.splits)
qed

lemma ResolveAddr_exists:
  "exit_block f \<noteq> None \<Longrightarrow> get_block f (ResolveAddr f v) \<noteq> None"
  by (auto simp: ResolveAddr_def get_block_def split: option.splits)

subsection \<open>AddInst\<close>

lemma ArchBasicBlock_new_DEFAULT:
  "ArchBasicBlock_new entries fn cc ident DEFAULT = Inr (fresh_block ident DEFAULT)"
  by (simp add: ArchBasicBlock_new_def)

lemma AddInst_step:
  "AddInst entries lifter f a i =
     Inr (update_block (AddrBlock a) (\<lambda>blk. blk\<lparr>regfile := lifter i (regfile blk)\<rparr>)
            (if map_of (block_map f) a = None
             then (if block_map f = [] then f\<lparr>entry_addr := Some a\<rparr> else f)
                    \<lparr>block_map := block_map f @ [(a, fresh_block (AddrBlock a) DEFAULT)]\<rparr>
             else (if block_map f = [] then f\<lparr>entry_addr := Some a\<rparr> else f)))"
  by (auto simp: AddInst_def Let_def ArchBasicBlock_new_DEFAULT)

lemma AddInst_ok: "\<exists>f'. AddInst entries lifter f a i = Inr f'"
  by (simp add: AddInst_step)

lemma AddInst_entry_addr:
  "AddInst entries lifter f a i = Inr f' \<Longrightarrow>
   entry_addr f' = (if block_map f = [] then Some a else entry_addr f)"
  by (auto simp: AddInst_step update_block_fields)

lemma AddInst_keys:
  "AddInst entries lifter f a i = Inr f' \<Longrightarrow>
   map fst (block_map f') = (if a \<in> set (map fst (block_map f)) then map fst (block_map f)
                             else map fst (block_map f) @ [a])"
  by (force simp: AddInst_step keys_update_block map_of_eq_None_iff)

lemma AddInst_frame:
  "AddInst entries lifter f a i = Inr f' \<Longrightarrow>
   cfg f' = cfg f \<and> llvm f' = llvm f \<and> entry_block f' = entry_block f \<and>
   exit_block f' = exit_block f \<and> llvm_callconv f' = llvm_callconv f"
  by (auto simp: AddInst_step update_block_def)

text \<open>The block an address stands for before a call: the one in the map, or a new one.\<close>

lemma AddInst_block:
  "AddInst entries lifter f a i = Inr f' \<Longrightarrow>
   map_of (block_map f') a' =
     (if a' = a
      then Some ((case map_of (block_map f) a of
                    None \<Rightarrow> fresh_block (AddrBlock a) DEFAULT
                  | Some blk \<Rightarrow> blk)\<lparr>regfile :=
                    lifter i (regfile (case map_of (block_map f) a of
                                         None \<Rightarrow> fresh_block (AddrBlock a) DEFAULT
                                       | Some blk \<Rightarrow> blk))\<rparr>)
      else map_of (block_map f) a')"
  by (auto simp: AddInst_step update_block_def map_of_map_entry map_add_def
      split: option.splits)

lemma AddInst_calls_ok: "\<exists>f'. AddInst_calls entries lifter f calls = Inr f'"
proof (induction calls arbitrary: f)
  case Nil
  then show ?case by simp
next
  case (Cons c cs)
  from AddInst_ok [of entries lifter f "fst c" "snd c"]
  obtain f1 where "AddInst entries lifter f (fst c) (snd c) = Inr f1" by blast
  with Cons.IH [of f1] show ?case by simp
qed

lemma AddInst_calls_frame:
  "AddInst_calls entries lifter f calls = Inr f' \<Longrightarrow>
   cfg f' = cfg f \<and> llvm f' = llvm f \<and> entry_block f' = entry_block f \<and>
   exit_block f' = exit_block f \<and> llvm_callconv f' = llvm_callconv f"
proof (induction calls arbitrary: f)
  case Nil
  then show ?case by simp
next
  case (Cons c cs)
  from Cons.prems obtain f1 where s: "AddInst entries lifter f (fst c) (snd c) = Inr f1"
    and r: "AddInst_calls entries lifter f1 cs = Inr f'" by (auto split: sum.splits)
  from AddInst_frame [OF s] Cons.IH [OF r] show ?case by simp
qed

lemma AddInst_calls_keys:
  "AddInst_calls entries lifter f calls = Inr f' \<Longrightarrow>
   set (map fst (block_map f')) = set (map fst (block_map f)) \<union> fst ` set calls \<and>
   (distinct (map fst (block_map f)) \<longrightarrow> distinct (map fst (block_map f')))"
proof (induction calls arbitrary: f)
  case Nil
  then show ?case by simp
next
  case (Cons c cs)
  from Cons.prems obtain f1 where s: "AddInst entries lifter f (fst c) (snd c) = Inr f1"
    and r: "AddInst_calls entries lifter f1 cs = Inr f'" by (auto split: sum.splits)
  from AddInst_keys [OF s]
  have k: "set (map fst (block_map f1)) = insert (fst c) (set (map fst (block_map f)))"
    and d: "distinct (map fst (block_map f)) \<longrightarrow> distinct (map fst (block_map f1))"
    by (auto split: if_splits)
  from Cons.IH [OF r] k d show ?case by auto
qed

lemma AddInst_calls_entry_addr:
  "AddInst_calls entries lifter f calls = Inr f' \<Longrightarrow>
   entry_addr f' = (if block_map f = [] \<and> calls \<noteq> [] then Some (fst (hd calls)) else entry_addr f)"
proof (induction calls arbitrary: f)
  case Nil
  then show ?case by simp
next
  case (Cons c cs)
  from Cons.prems obtain f1 where s: "AddInst entries lifter f (fst c) (snd c) = Inr f1"
    and r: "AddInst_calls entries lifter f1 cs = Inr f'" by (auto split: sum.splits)
  from AddInst_keys [OF s] have ne: "block_map f1 \<noteq> []" by (auto split: if_splits)
  from Cons.IH [OF r] ne AddInst_entry_addr [OF s] show ?case by simp
qed

lemma AddInst_calls_block:
  "AddInst_calls entries lifter f calls = Inr f' \<Longrightarrow>
   map_of (block_map f') a =
     (if a \<in> fst ` set calls \<or> map_of (block_map f) a \<noteq> None
      then Some ((case map_of (block_map f) a of
                    None \<Rightarrow> fresh_block (AddrBlock a) DEFAULT
                  | Some blk \<Rightarrow> blk)\<lparr>regfile :=
                    foldl (\<lambda>rf i. lifter i rf)
                      (regfile (case map_of (block_map f) a of
                                  None \<Rightarrow> fresh_block (AddrBlock a) DEFAULT
                                | Some blk \<Rightarrow> blk))
                      (map snd (filter (\<lambda>c. fst c = a) calls))\<rparr>)
      else None)"
proof (induction calls arbitrary: f)
  case Nil
  then show ?case by (auto split: option.splits)
next
  case (Cons c cs)
  from Cons.prems obtain f1 where s: "AddInst entries lifter f (fst c) (snd c) = Inr f1"
    and r: "AddInst_calls entries lifter f1 cs = Inr f'" by (auto split: sum.splits)
  show ?case
    unfolding Cons.IH [OF r] AddInst_block [OF s]
    by (auto split: option.splits)
qed

subsection \<open>Branches\<close>

lemma BranchTo_get_block:
  assumes "BranchTo src next f = Inr f'"
  shows "get_block f' b =
     map_option (\<lambda>blk. (if b = src then blk\<lparr>terminator := Some (Br next)\<rparr> else blk)
                        \<lparr>predecessors := predecessors blk @ (if b = next then [src] else [])\<rparr>)
       (get_block f b)"
proof -
  from assms have f': "f' = add_predecessor src next
      (update_block src (\<lambda>b. b\<lparr>terminator := Some (Br next)\<rparr>) f)"
    by (simp add: BranchTo_def split: option.splits if_splits)
  show ?thesis
    by (cases "get_block f b")
       (auto simp: f' add_predecessor_def get_block_update_block)
qed

lemma BranchTo_cond_get_block:
  assumes "BranchTo_cond src c tb eb f = Inr f'"
  shows "get_block f' b =
     map_option (\<lambda>blk. (if b = src then blk\<lparr>terminator := Some (CondBr c tb eb)\<rparr> else blk)
                        \<lparr>predecessors := predecessors blk @ (if b = tb then [src] else [])
                                           @ (if b = eb then [src] else [])\<rparr>)
       (get_block f b)"
proof -
  from assms have f': "f' = add_predecessor src eb (add_predecessor src tb
      (update_block src (\<lambda>b. b\<lparr>terminator := Some (CondBr c tb eb)\<rparr>) f))"
    by (simp add: BranchTo_cond_def split: option.splits if_splits)
  show ?thesis
    by (cases "get_block f b")
       (auto simp: f' add_predecessor_def get_block_update_block)
qed


lemma BranchTo_src_exists: "BranchTo src next f = Inr f' \<Longrightarrow> get_block f src \<noteq> None"
  by (simp add: BranchTo_def split: option.splits)

lemma BranchTo_cond_src_exists:
  "BranchTo_cond src c tb eb f = Inr f' \<Longrightarrow> get_block f src \<noteq> None"
  by (simp add: BranchTo_cond_def split: option.splits)

lemma BranchTo_next_exists: "BranchTo src next f = Inr f' \<Longrightarrow> get_block f next \<noteq> None"
  by (simp add: BranchTo_def split: option.splits if_splits)

lemma BranchTo_views:
  assumes b: "BranchTo src next f = Inr f'"
  shows "map_option kind (get_block f' r) = map_option kind (get_block f r)"
    and "map_option regfile (get_block f' r) = map_option regfile (get_block f r)"
    and "terminator_of f' r = (if r = src then Some (Br next) else terminator_of f r)"
    and "prefix (predecessors_of f r) (predecessors_of f' r)"
proof -
  show "map_option kind (get_block f' r) = map_option kind (get_block f r)"
    unfolding BranchTo_get_block [OF b] by (cases "get_block f r") simp_all
  show "map_option regfile (get_block f' r) = map_option regfile (get_block f r)"
    unfolding BranchTo_get_block [OF b] by (cases "get_block f r") simp_all
  show "terminator_of f' r = (if r = src then Some (Br next) else terminator_of f r)"
    unfolding terminator_of_def BranchTo_get_block [OF b]
    using BranchTo_src_exists [OF b] by (cases "get_block f r") auto
  show "prefix (predecessors_of f r) (predecessors_of f' r)"
    unfolding predecessors_of_def BranchTo_get_block [OF b]
    by (cases "get_block f r") simp_all
qed

lemma BranchTo_predecessor:
  assumes b: "BranchTo src next f = Inr f'"
  shows "src \<in> set (predecessors_of f' next)"
  unfolding predecessors_of_def BranchTo_get_block [OF b]
  using BranchTo_next_exists [OF b] by (cases "get_block f next") auto

lemma BranchTo_cond_views:
  assumes b: "BranchTo_cond src c tb eb f = Inr f'"
  shows "map_option kind (get_block f' r) = map_option kind (get_block f r)"
    and "map_option regfile (get_block f' r) = map_option regfile (get_block f r)"
    and "terminator_of f' r = (if r = src then Some (CondBr c tb eb) else terminator_of f r)"
    and "prefix (predecessors_of f r) (predecessors_of f' r)"
proof -
  show "map_option kind (get_block f' r) = map_option kind (get_block f r)"
    unfolding BranchTo_cond_get_block [OF b] by (cases "get_block f r") simp_all
  show "map_option regfile (get_block f' r) = map_option regfile (get_block f r)"
    unfolding BranchTo_cond_get_block [OF b] by (cases "get_block f r") simp_all
  show "terminator_of f' r = (if r = src then Some (CondBr c tb eb) else terminator_of f r)"
    unfolding terminator_of_def BranchTo_cond_get_block [OF b]
    using BranchTo_cond_src_exists [OF b] by (cases "get_block f r") auto
  show "prefix (predecessors_of f r) (predecessors_of f' r)"
    unfolding predecessors_of_def BranchTo_cond_get_block [OF b]
    by (cases "get_block f r") simp_all
qed

lemma BranchTo_frame:
  assumes "BranchTo src next f = Inr f'"
  shows "map fst (block_map f') = map fst (block_map f) \<and> cfg f' = cfg f \<and> llvm f' = llvm f
    \<and> entry_addr f' = entry_addr f"
proof -
  from assms have f': "f' = add_predecessor src next
      (update_block src (\<lambda>b. b\<lparr>terminator := Some (Br next)\<rparr>) f)"
    by (simp add: BranchTo_def split: option.splits if_splits)
  show ?thesis
    by (simp add: f' add_predecessor_def keys_update_block update_block_fields)
qed

lemma BranchTo_cond_frame:
  assumes "BranchTo_cond src c tb eb f = Inr f'"
  shows "map fst (block_map f') = map fst (block_map f) \<and> cfg f' = cfg f \<and> llvm f' = llvm f
    \<and> entry_addr f' = entry_addr f"
proof -
  from assms have f': "f' = add_predecessor src eb (add_predecessor src tb
      (update_block src (\<lambda>b. b\<lparr>terminator := Some (CondBr c tb eb)\<rparr>) f))"
    by (simp add: BranchTo_cond_def split: option.splits if_splits)
  show ?thesis
    by (simp add: f' add_predecessor_def keys_update_block update_block_fields)
qed

lemma BranchTo_ok:
  "get_block f src = Some blk \<Longrightarrow> terminator blk = None \<Longrightarrow> get_block f next \<noteq> None \<Longrightarrow>
   \<exists>f'. BranchTo src next f = Inr f'"
  by (simp add: BranchTo_def)

lemma BranchTo_cond_ok:
  "get_block f src = Some blk \<Longrightarrow> terminator blk = None \<Longrightarrow> get_block f tb \<noteq> None \<Longrightarrow>
   get_block f eb \<noteq> None \<Longrightarrow> \<exists>f'. BranchTo_cond src c tb eb f = Inr f'"
  by (simp add: BranchTo_cond_def)

lemma exists_iff_kind:
  "map_option kind (get_block f' r) = map_option kind (get_block f r) \<Longrightarrow>
   (get_block f' r = None) = (get_block f r = None)"
  by (metis option.map_disc_iff)


subsection \<open>The stitching loop\<close>

lemma NextRip_fields:
  "kind (snd (NextRip blk)) = kind blk"
  "terminator (snd (NextRip blk)) = terminator blk"
  "predecessors (snd (NextRip blk)) = predecessors blk"
  "mem_ref_values (snd (NextRip blk)) = mem_ref_values blk"
  "filled_phis (snd (NextRip blk)) = filled_phis blk"
  by (simp_all add: NextRip_def split: prod.splits)

lemma next_branch_cong:
  "map fst (block_map f') = map fst (block_map f) \<Longrightarrow> regfile blk' = regfile blk \<Longrightarrow>
   next_branch f' blk' = next_branch f blk"
proof -
  assume k: "map fst (block_map f') = map fst (block_map f)" and r: "regfile blk' = regfile blk"
  have n: "fst (NextRip blk') = fst (NextRip blk)"
    by (simp add: NextRip_def r split: prod.splits)
  have "\<And>v. ResolveAddr f' v = ResolveAddr f v" using k by (rule ResolveAddr_keys)
  then show ?thesis by (simp add: next_branch_def n split: option.splits)
qed


lemma stitch_block_step:
  assumes blk: "get_block f (AddrBlock a) = Some blk"
    and unresolved: "terminator blk = None"
    and exit: "exit_block f \<noteq> None"
  shows "\<exists>f'. stitch_block a f = Inr f' \<and>
     map fst (block_map f') = map fst (block_map f) \<and> cfg f' = cfg f \<and> llvm f' = llvm f \<and>
     entry_addr f' = entry_addr f \<and>
     (\<forall>r. map_option kind (get_block f' r) = map_option kind (get_block f r)) \<and>
     (\<forall>r. r \<noteq> AddrBlock a \<longrightarrow>
          map_option regfile (get_block f' r) = map_option regfile (get_block f r)) \<and>
     (\<forall>r. terminator_of f' r =
          (if r = AddrBlock a then Some (next_branch f blk) else terminator_of f r)) \<and>
     (\<forall>r. prefix (predecessors_of f r) (predecessors_of f' r))"
proof -
  obtain v blk' where nr: "NextRip blk = (v, blk')" by (cases "NextRip blk") auto
  let ?f1 = "update_block (AddrBlock a) (\<lambda>b. blk') f"
  have k1: "map fst (block_map ?f1) = map fst (block_map f)" by (rule keys_update_block)
  have g1: "\<And>r. get_block ?f1 r = (if r = AddrBlock a then Some blk' else get_block f r)"
    using blk by (simp add: get_block_update_block)
  have e1: "exit_block ?f1 \<noteq> None" using exit by (simp add: update_block_def)
  have fld: "kind blk' = kind blk" "predecessors blk' = predecessors blk"
    "terminator blk' = terminator blk"
    using NextRip_fields [of blk] nr by simp_all
  have m: "map_of (block_map f) a = Some blk" using blk by (simp add: get_block_def)
  have kind1: "\<And>r. map_option kind (get_block ?f1 r) = map_option kind (get_block f r)"
    using blk fld by (simp add: g1)
  have reg1: "\<And>r. r \<noteq> AddrBlock a \<Longrightarrow>
      map_option regfile (get_block ?f1 r) = map_option regfile (get_block f r)"
    by (simp add: g1)
  have term1: "\<And>r. terminator_of ?f1 r = terminator_of f r"
    using blk fld by (simp add: terminator_of_def g1)
  have pred1: "\<And>r. predecessors_of ?f1 r = predecessors_of f r"
    using blk fld by (simp add: predecessors_of_def g1)
  have fr1: "cfg ?f1 = cfg f" "llvm ?f1 = llvm f" "entry_addr ?f1 = entry_addr f"
    by (simp_all add: update_block_fields)
  have src1: "get_block ?f1 (AddrBlock a) = Some blk'" by (simp add: g1)
  have t1: "terminator blk' = None" using fld unresolved by simp
  show ?thesis
  proof (cases "dyn_cast_SelectInst v")
    case None
    have nb: "next_branch f blk = Br (ResolveAddr f v)"
      using nr None by (simp add: next_branch_def)
    have r: "ResolveAddr ?f1 v = ResolveAddr f v" using k1 by (rule ResolveAddr_keys)
    have "get_block ?f1 (ResolveAddr ?f1 v) \<noteq> None" using e1 by (rule ResolveAddr_exists)
    from BranchTo_ok [OF src1 t1 this]
    obtain f' where b: "BranchTo (AddrBlock a) (ResolveAddr ?f1 v) ?f1 = Inr f'" by blast
    have s: "stitch_block a f = Inr f'"
      using m nr None b by (simp add: stitch_block_def Let_def)
    note v = BranchTo_views [OF b]
    have "\<forall>r. terminator_of f' r =
          (if r = AddrBlock a then Some (next_branch f blk) else terminator_of f r)"
      by (simp add: v(3) term1 nb r)
    moreover have "\<forall>r. prefix (predecessors_of f r) (predecessors_of f' r)"
      using v(4) by (simp add: pred1)
    moreover have "\<forall>r. map_option kind (get_block f' r) = map_option kind (get_block f r)"
      by (simp add: v(1) kind1)
    moreover have "\<forall>r. r \<noteq> AddrBlock a \<longrightarrow>
          map_option regfile (get_block f' r) = map_option regfile (get_block f r)"
      by (simp add: v(2) reg1)
    ultimately show ?thesis using s BranchTo_frame [OF b] k1 fr1 by simp
  next
    case (Some sel)
    obtain c tv fv where sel: "sel = (c, tv, fv)" by (cases sel) auto
    have nb: "next_branch f blk = CondBr c (ResolveAddr f tv) (ResolveAddr f fv)"
      using nr Some sel by (simp add: next_branch_def)
    have r: "ResolveAddr ?f1 tv = ResolveAddr f tv" "ResolveAddr ?f1 fv = ResolveAddr f fv"
      using k1 by (rule ResolveAddr_keys)+
    have ex: "get_block ?f1 (ResolveAddr ?f1 tv) \<noteq> None"
      "get_block ?f1 (ResolveAddr ?f1 fv) \<noteq> None"
      using e1 by (rule ResolveAddr_exists)+
    from BranchTo_cond_ok [OF src1 t1 ex]
    obtain f' where b: "BranchTo_cond (AddrBlock a) c (ResolveAddr ?f1 tv) (ResolveAddr ?f1 fv) ?f1
        = Inr f'" by blast
    have s: "stitch_block a f = Inr f'"
      using m nr Some sel b by (simp add: stitch_block_def Let_def)
    note v = BranchTo_cond_views [OF b]
    have "\<forall>r. terminator_of f' r =
          (if r = AddrBlock a then Some (next_branch f blk) else terminator_of f r)"
      by (simp add: v(3) term1 nb r)
    moreover have "\<forall>r. prefix (predecessors_of f r) (predecessors_of f' r)"
      using v(4) by (simp add: pred1)
    moreover have "\<forall>r. map_option kind (get_block f' r) = map_option kind (get_block f r)"
      by (simp add: v(1) kind1)
    moreover have "\<forall>r. r \<noteq> AddrBlock a \<longrightarrow>
          map_option regfile (get_block f' r) = map_option regfile (get_block f r)"
      by (simp add: v(2) reg1)
    ultimately show ?thesis using s BranchTo_cond_frame [OF b] k1 fr1 by simp
  qed
qed


lemma next_branch_map_option:
  assumes "map fst (block_map f') = map fst (block_map f)"
    and "map_option regfile x = map_option regfile y"
  shows "map_option (next_branch f') x = map_option (next_branch f) y"
proof (cases x)
  case None
  with assms(2) show ?thesis by simp
next
  case (Some bx)
  with assms(2) obtain by' where y: "y = Some by'" and r: "regfile bx = regfile by'"
    by (cases y) auto
  from next_branch_cong [OF assms(1) r] Some y show ?thesis by simp
qed

lemma stitch_blocks_result:
  assumes "distinct as"
    and "\<forall>a\<in>set as. get_block f (AddrBlock a) \<noteq> None \<and> terminator_of f (AddrBlock a) = None"
    and "exit_block f \<noteq> None"
  shows "\<exists>f'. stitch_blocks as f = Inr f' \<and>
     map fst (block_map f') = map fst (block_map f) \<and> cfg f' = cfg f \<and> llvm f' = llvm f \<and>
     entry_addr f' = entry_addr f \<and>
     (\<forall>r. map_option kind (get_block f' r) = map_option kind (get_block f r)) \<and>
     (\<forall>r. r \<notin> AddrBlock ` set as \<longrightarrow>
          map_option regfile (get_block f' r) = map_option regfile (get_block f r)) \<and>
     (\<forall>r. r \<notin> AddrBlock ` set as \<longrightarrow> terminator_of f' r = terminator_of f r) \<and>
     (\<forall>a\<in>set as. terminator_of f' (AddrBlock a)
          = map_option (next_branch f) (get_block f (AddrBlock a))) \<and>
     (\<forall>r. prefix (predecessors_of f r) (predecessors_of f' r))"
  using assms
proof (induction as arbitrary: f)
  case Nil
  then show ?case by simp
next
  case (Cons a as)
  from Cons.prems(2) obtain blk where blk: "get_block f (AddrBlock a) = Some blk"
    and un: "terminator_of f (AddrBlock a) = None" by auto
  from un blk have t: "terminator blk = None" by (simp add: terminator_of_def)
  from stitch_block_step [OF blk t Cons.prems(3)] obtain f1
    where s1: "stitch_block a f = Inr f1"
      and k1: "map fst (block_map f1) = map fst (block_map f)"
      and fr1: "cfg f1 = cfg f" "llvm f1 = llvm f" "entry_addr f1 = entry_addr f"
      and kind1: "\<And>r. map_option kind (get_block f1 r) = map_option kind (get_block f r)"
      and reg1: "\<And>r. r \<noteq> AddrBlock a \<Longrightarrow>
          map_option regfile (get_block f1 r) = map_option regfile (get_block f r)"
      and term1: "\<And>r. terminator_of f1 r =
          (if r = AddrBlock a then Some (next_branch f blk) else terminator_of f r)"
      and pred1: "\<And>r. prefix (predecessors_of f r) (predecessors_of f1 r)"
    by blast
  from Cons.prems(1) have d: "distinct as" and na: "a \<notin> set as" by auto
  have ex1: "\<And>r. (get_block f1 r = None) = (get_block f r = None)"
    using kind1 by (rule exists_iff_kind)
  have p2: "\<forall>a'\<in>set as. get_block f1 (AddrBlock a') \<noteq> None
      \<and> terminator_of f1 (AddrBlock a') = None"
    using Cons.prems(2) na by (auto simp: ex1 term1)
  have e1: "exit_block f1 \<noteq> None"
    using ex1 [of ExitBlock] Cons.prems(3) by (simp add: get_block_def)
  from Cons.IH [OF d p2 e1] obtain f'
    where s2: "stitch_blocks as f1 = Inr f'"
      and k2: "map fst (block_map f') = map fst (block_map f1)"
      and fr2: "cfg f' = cfg f1" "llvm f' = llvm f1" "entry_addr f' = entry_addr f1"
      and kind2: "\<And>r. map_option kind (get_block f' r) = map_option kind (get_block f1 r)"
      and reg2: "\<And>r. r \<notin> AddrBlock ` set as \<Longrightarrow>
          map_option regfile (get_block f' r) = map_option regfile (get_block f1 r)"
      and term2: "\<And>r. r \<notin> AddrBlock ` set as \<Longrightarrow> terminator_of f' r = terminator_of f1 r"
      and new2: "\<And>a'. a' \<in> set as \<Longrightarrow> terminator_of f' (AddrBlock a')
          = map_option (next_branch f1) (get_block f1 (AddrBlock a'))"
      and pred2: "\<And>r. prefix (predecessors_of f1 r) (predecessors_of f' r)"
    by blast
  have "stitch_blocks (a # as) f = Inr f'" using s1 s2 by simp
  moreover have "map fst (block_map f') = map fst (block_map f)" using k1 k2 by simp
  moreover have "cfg f' = cfg f" "llvm f' = llvm f" "entry_addr f' = entry_addr f"
    using fr1 fr2 by simp_all
  moreover have "\<forall>r. map_option kind (get_block f' r) = map_option kind (get_block f r)"
    using kind1 kind2 by simp
  moreover have "\<forall>r. r \<notin> AddrBlock ` set (a # as) \<longrightarrow>
          map_option regfile (get_block f' r) = map_option regfile (get_block f r)"
    using reg1 reg2 by auto
  moreover have "\<forall>r. r \<notin> AddrBlock ` set (a # as) \<longrightarrow> terminator_of f' r = terminator_of f r"
    using term1 term2 by auto
  moreover have "\<forall>a'\<in>set (a # as). terminator_of f' (AddrBlock a')
          = map_option (next_branch f) (get_block f (AddrBlock a'))"
  proof
    fix a' assume a': "a' \<in> set (a # as)"
    show "terminator_of f' (AddrBlock a') = map_option (next_branch f) (get_block f (AddrBlock a'))"
    proof (cases "a' = a")
      case True
      have "AddrBlock a \<notin> AddrBlock ` set as" using na by auto
      from term2 [OF this] term1 [of "AddrBlock a"] blk True show ?thesis by simp
    next
      case False
      with a' have in_as: "a' \<in> set as" by simp
      from False have ne: "AddrBlock a' \<noteq> AddrBlock a" by simp
      from next_branch_map_option [OF k1 reg1 [OF ne]] new2 [OF in_as] show ?thesis by simp
    qed
  qed
  moreover have "\<forall>r. prefix (predecessors_of f r) (predecessors_of f' r)"
    using pred1 pred2 by (meson prefix_order.order_trans)
  ultimately show ?case by blast
qed

subsection \<open>The fill pass\<close>

lemma fill_block_fields:
  "kind (fill_block f blk) = kind blk"
  "terminator (fill_block f blk) = terminator blk"
  "predecessors (fill_block f blk) = predecessors blk"
  "mem_ref_values (fill_block f blk) = mem_ref_values blk"
  "empty_phis (regfile (fill_block f blk)) =
     filter (\<lambda>key. \<not> fillable f blk key) (empty_phis (regfile blk))"
  "reg_values (regfile (fill_block f blk)) = reg_values (regfile blk)"
  "insert_block (regfile (fill_block f blk)) = insert_block (regfile blk)"
  by (simp_all add: fill_block_def)

lemma FillPhis_result:
  assumes "FillPhis r f = Inr (c, f')"
  shows "\<exists>blk. get_block f r = Some blk \<and> f' = update_block r (fill_block f) f \<and>
           c = (filter (fillable f blk) (empty_phis (regfile blk)) \<noteq> [])"
  using assms by (auto simp: FillPhis_def split: option.splits if_splits)

lemma FillPhis_ok:
  "get_block f r = Some blk \<Longrightarrow> kind blk = EXIT \<or> terminator blk \<noteq> None \<Longrightarrow>
   \<exists>c f'. FillPhis r f = Inr (c, f')"
  by (auto simp: FillPhis_def)

lemma FillPhis_views:
  assumes "FillPhis r f = Inr (c, f')"
  shows "map fst (block_map f') = map fst (block_map f)"
    and "cfg f' = cfg f" and "llvm f' = llvm f" and "entry_addr f' = entry_addr f"
    and "map_option kind (get_block f' b) = map_option kind (get_block f b)"
    and "terminator_of f' b = terminator_of f b"
    and "predecessors_of f' b = predecessors_of f b"
proof -
  from FillPhis_result [OF assms] have f': "f' = update_block r (fill_block f) f" by blast
  show "map fst (block_map f') = map fst (block_map f)" by (simp add: f' keys_update_block)
  show "cfg f' = cfg f" "llvm f' = llvm f" "entry_addr f' = entry_addr f"
    by (simp_all add: f' update_block_fields)
  show "map_option kind (get_block f' b) = map_option kind (get_block f b)"
    by (cases "get_block f b") (auto simp: f' get_block_update_block fill_block_fields)
  show "terminator_of f' b = terminator_of f b"
    by (cases "get_block f b")
       (auto simp: terminator_of_def f' get_block_update_block fill_block_fields)
  show "predecessors_of f' b = predecessors_of f b"
    by (cases "get_block f b")
       (auto simp: predecessors_of_def f' get_block_update_block fill_block_fields)
qed

lemma FillPhis_pending:
  assumes "FillPhis r f = Inr (c, f')"
  shows "set (pending f' b) \<subseteq> set (pending f b)"
proof -
  from FillPhis_result [OF assms] have f': "f' = update_block r (fill_block f) f" by blast
  show ?thesis
    by (cases "get_block f b")
       (auto simp: pending_def f' get_block_update_block fill_block_fields)
qed

lemma sum_list_map_entry:
  "map_of xs k = Some v \<Longrightarrow>
   sum_list (map (\<lambda>p. h (snd p)) (AList.map_entry k g xs)) + h v
     = sum_list (map (\<lambda>p. h (snd p)) xs) + (h (g v) :: nat)"
  by (induction xs) (auto split: if_splits)

lemma total_pending_update_block:
  assumes "get_block f r = Some blk"
  shows "total_pending (update_block r g f) + length (empty_phis (regfile blk))
     = total_pending f + length (empty_phis (regfile (g blk)))"
proof (cases r)
  case EntryBlock
  with assms show ?thesis by (auto simp: total_pending_def update_block_def get_block_def)
next
  case ExitBlock
  with assms show ?thesis by (auto simp: total_pending_def update_block_def get_block_def)
next
  case (AddrBlock a)
  with assms have m: "map_of (block_map f) a = Some blk" by (simp add: get_block_def)
  from sum_list_map_entry [OF m, of "\<lambda>b. length (empty_phis (regfile b))" g] AddrBlock
  show ?thesis by (simp add: total_pending_def update_block_def)
qed

lemma FillPhis_measure:
  assumes "FillPhis r f = Inr (c, f')"
  shows "total_pending f' \<le> total_pending f \<and> (c \<longrightarrow> total_pending f' < total_pending f)"
proof -
  from FillPhis_result [OF assms] obtain blk
    where blk: "get_block f r = Some blk" and f': "f' = update_block r (fill_block f) f"
      and c: "c = (filter (fillable f blk) (empty_phis (regfile blk)) \<noteq> [])" by blast
  let ?xs = "empty_phis (regfile blk)"
  have split: "length (filter (fillable f blk) ?xs) + length (filter (\<lambda>k. \<not> fillable f blk k) ?xs)
      = length ?xs"
    by (rule sum_length_filter_compl)
  from total_pending_update_block [OF blk, of "fill_block f"]
  have "total_pending f' + length ?xs
      = total_pending f + length (filter (\<lambda>k. \<not> fillable f blk k) ?xs)"
    by (simp add: f' fill_block_fields)
  with split c show ?thesis by (cases "filter (fillable f blk) ?xs") auto
qed

lemma FillPhis_blocks_measure:
  "FillPhis_blocks as (c0, f) = Inr (c, f') \<Longrightarrow>
   total_pending f' \<le> total_pending f \<and> (c \<longrightarrow> c0 \<or> total_pending f' < total_pending f)"
proof (induction as arbitrary: c0 f)
  case Nil
  then show ?case by simp
next
  case (Cons a as)
  from Cons.prems obtain c1 f1 where s: "FillPhis (AddrBlock a) f = Inr (c1, f1)"
    and r: "FillPhis_blocks as (c0 \<or> c1, f1) = Inr (c, f')"
    by (auto split: sum.splits)
  from FillPhis_measure [OF s] Cons.IH [OF r] show ?case by auto
qed

lemma fill_pass_measure:
  assumes "fill_pass f = Inr (c, f')"
  shows "total_pending f' \<le> total_pending f \<and> (c \<longrightarrow> total_pending f' < total_pending f)"
proof -
  obtain c1 f1 where a: "FillPhis_blocks (map fst (block_map f)) (False, f) = Inr (c1, f1)"
    using assms by (cases "FillPhis_blocks (map fst (block_map f)) (False, f)")
      (auto simp: fill_pass_def)
  obtain c2 f2 where b: "FillPhis ExitBlock f1 = Inr (c2, f2)"
    using assms a by (cases "FillPhis ExitBlock f1") (auto simp: fill_pass_def)
  from assms a b have c: "c = (c1 \<or> c2)" and f2: "f2 = f'" by (simp_all add: fill_pass_def)
  note b = b [unfolded f2]
  from FillPhis_blocks_measure [OF a] FillPhis_measure [OF b] c show ?thesis by auto
qed

lemma fill_loop_terminates: "\<exists>r. fill_loop f = Some r"
proof (induction "total_pending f" arbitrary: f rule: less_induct)
  case less
  show ?case
  proof (cases "fill_pass f")
    case (Inl e)
    then show ?thesis by (subst fill_loop.simps) simp
  next
    case (Inr cf)
    obtain c f' where cf: "cf = (c, f')" by (cases cf) auto
    show ?thesis
    proof (cases c)
      case True
      with fill_pass_measure [of f c f'] Inr cf have "total_pending f' < total_pending f" by simp
      from less [OF this] obtain r where "fill_loop f' = Some r" by blast
      with Inr cf True show ?thesis by (subst fill_loop.simps) simp
    next
      case False
      with Inr cf show ?thesis by (subst fill_loop.simps) simp
    qed
  qed
qed

lemma fill_pass_parts:
  assumes "fill_pass f = Inr (c, f')"
  shows "\<exists>c1 f1 c2. FillPhis_blocks (map fst (block_map f)) (False, f) = Inr (c1, f1) \<and>
           FillPhis ExitBlock f1 = Inr (c2, f') \<and> c = (c1 \<or> c2)"
proof -
  obtain c1 f1 where a: "FillPhis_blocks (map fst (block_map f)) (False, f) = Inr (c1, f1)"
    using assms by (cases "FillPhis_blocks (map fst (block_map f)) (False, f)")
      (auto simp: fill_pass_def)
  obtain c2 f2 where b: "FillPhis ExitBlock f1 = Inr (c2, f2)"
    using assms a by (cases "FillPhis ExitBlock f1") (auto simp: fill_pass_def)
  from assms a b have "c = (c1 \<or> c2)" and "f2 = f'" by (simp_all add: fill_pass_def)
  with a b show ?thesis by blast
qed

lemma fill_block_unchanged:
  assumes "filter (fillable f blk) (empty_phis (regfile blk)) = []"
  shows "fill_block f blk = blk"
proof -
  from assms have "\<forall>k\<in>set (empty_phis (regfile blk)). \<not> fillable f blk k"
    by (simp add: filter_empty_conv)
  then have "filter (\<lambda>key. \<not> fillable f blk key) (empty_phis (regfile blk))
      = empty_phis (regfile blk)"
    by (simp add: filter_id_conv)
  with assms show ?thesis by (simp add: fill_block_def)
qed

lemma FillPhis_unchanged:
  assumes "FillPhis r f = Inr (False, f')"
  shows "f' = f"
proof -
  from FillPhis_result [OF assms] obtain blk
    where blk: "get_block f r = Some blk" and f': "f' = update_block r (fill_block f) f"
      and c: "filter (fillable f blk) (empty_phis (regfile blk)) = []" by auto
  from update_block_id [of f r blk "fill_block f", OF blk fill_block_unchanged [OF c]] f'
  show ?thesis by simp
qed

lemma FillPhis_blocks_unchanged:
  "FillPhis_blocks as (c0, f) = Inr (False, f') \<Longrightarrow> f' = f \<and> \<not> c0"
proof (induction as arbitrary: c0 f)
  case Nil
  then show ?case by simp
next
  case (Cons a as)
  from Cons.prems obtain c1 f1 where s: "FillPhis (AddrBlock a) f = Inr (c1, f1)"
    and r: "FillPhis_blocks as (c0 \<or> c1, f1) = Inr (False, f')"
    by (auto split: sum.splits)
  from Cons.IH [OF r] have "f' = f1" "\<not> c0" "\<not> c1" by auto
  with FillPhis_unchanged [of "AddrBlock a" f f1] s show ?case by simp
qed

lemma fill_pass_unchanged:
  assumes "fill_pass f = Inr (False, f')"
  shows "f' = f"
proof -
  from fill_pass_parts [OF assms] obtain f1
    where a: "FillPhis_blocks (map fst (block_map f)) (False, f) = Inr (False, f1)"
      and b: "FillPhis ExitBlock f1 = Inr (False, f')" by auto
  from FillPhis_blocks_unchanged [OF a] FillPhis_unchanged [OF b] show ?thesis by simp
qed

text \<open>A block without a pending placeholder is left as it is, and a pass reports a
  change when a placeholder of the exit block fills.\<close>

lemma FillPhis_no_placeholder:
  assumes blk: "get_block f r = Some blk"
    and e: "empty_phis (regfile blk) = []"
    and t: "terminator blk \<noteq> None"
  shows "FillPhis r f = Inr (False, f)"
proof -
  have "fill_block f blk = blk" by (rule fill_block_unchanged) (simp add: e)
  with blk have "update_block r (fill_block f) f = f" by (rule update_block_id)
  with blk e t show ?thesis by (simp add: FillPhis_def)
qed

lemma FillPhis_blocks_no_placeholder:
  "\<forall>a\<in>set as. \<exists>blk. get_block f (AddrBlock a) = Some blk \<and> empty_phis (regfile blk) = [] \<and>
      terminator blk \<noteq> None \<Longrightarrow>
   FillPhis_blocks as (c, f) = Inr (c, f)"
proof (induction as)
  case Nil
  then show ?case by simp
next
  case (Cons a as)
  from Cons.prems obtain blk
    where "get_block f (AddrBlock a) = Some blk" "empty_phis (regfile blk) = []"
      "terminator blk \<noteq> None" by auto
  then have "FillPhis (AddrBlock a) f = Inr (False, f)" by (rule FillPhis_no_placeholder)
  with Cons show ?case by simp
qed

lemma fill_pass_exit_fills:
  assumes blocks: "\<forall>a\<in>set (map fst (block_map f)). \<exists>blk. get_block f (AddrBlock a) = Some blk \<and>
      empty_phis (regfile blk) = [] \<and> terminator blk \<noteq> None"
    and xb: "get_block f ExitBlock = Some xb" "kind xb = EXIT"
    and key: "key \<in> set (empty_phis (regfile xb))" "fillable f xb key"
  shows "\<exists>f'. fill_pass f = Inr (True, f')"
proof -
  from blocks have "FillPhis_blocks (map fst (block_map f)) (False, f) = Inr (False, f)"
    by (rule FillPhis_blocks_no_placeholder)
  moreover from key have "filter (fillable f xb) (empty_phis (regfile xb)) \<noteq> []"
    by (auto simp: filter_empty_conv)
  ultimately show ?thesis using xb by (simp add: fill_pass_def FillPhis_def)
qed

text \<open>An invariant of the passes holds when the loop ends, and the loop ends with the
  state of a pass that reported no change.\<close>

lemma fill_loop_invariant:
  assumes "fill_loop f = Some (Inr f')" and "P f"
    and step: "\<And>g c g'. P g \<Longrightarrow> fill_pass g = Inr (c, g') \<Longrightarrow> P g'"
  shows "P f' \<and> fill_pass f' = Inr (False, f')"
  using assms(1,2)
proof (induction "total_pending f" arbitrary: f rule: less_induct)
  case less
  show ?case
  proof (cases "fill_pass f")
    case (Inl e)
    with less.prems(1) show ?thesis by (subst (asm) fill_loop.simps) simp
  next
    case (Inr cf)
    obtain c g where cf: "cf = (c, g)" by (cases cf) auto
    from step [OF less.prems(2)] Inr cf have Pg: "P g" by simp
    show ?thesis
    proof (cases c)
      case True
      with fill_pass_measure [of f c g] Inr cf have m: "total_pending g < total_pending f" by simp
      from less.prems(1) Inr cf True have "fill_loop g = Some (Inr f')"
        by (subst (asm) fill_loop.simps) simp
      from less.hyps [OF m this Pg] show ?thesis .
    next
      case False
      from less.prems(1) Inr cf False have "g = f'"
        by (subst (asm) fill_loop.simps) simp
      moreover from Inr cf False fill_pass_unchanged [of f g] have "g = f" by simp
      ultimately show ?thesis using Pg Inr cf False by simp
    qed
  qed
qed

lemma fill_loop_ok:
  assumes "P f"
    and step: "\<And>g c g'. P g \<Longrightarrow> fill_pass g = Inr (c, g') \<Longrightarrow> P g'"
    and ok: "\<And>g. P g \<Longrightarrow> \<exists>cf. fill_pass g = Inr cf"
  shows "\<exists>f'. fill_loop f = Some (Inr f')"
  using assms(1)
proof (induction "total_pending f" arbitrary: f rule: less_induct)
  case less
  from ok [OF less.prems] obtain c g where p: "fill_pass f = Inr (c, g)" by auto
  show ?case
  proof (cases c)
    case True
    with fill_pass_measure [OF p] have m: "total_pending g < total_pending f" by simp
    from less.hyps [OF m step [OF less.prems p]] obtain f' where "fill_loop g = Some (Inr f')"
      by blast
    with p True show ?thesis by (subst fill_loop.simps) simp
  next
    case False
    with p show ?thesis by (subst fill_loop.simps) simp
  qed
qed

lemma same_graph_refl: "same_graph f f"
  by (simp add: same_graph_def)

lemma same_graph_trans: "same_graph f g \<Longrightarrow> same_graph g h \<Longrightarrow> same_graph f h"
  unfolding same_graph_def by (metis subset_trans)

lemma FillPhis_same_graph: "FillPhis r f = Inr (c, f') \<Longrightarrow> same_graph f f'"
  unfolding same_graph_def
  using FillPhis_views [of r f c f'] FillPhis_pending [of r f c f'] by simp

lemma FillPhis_blocks_same_graph:
  "FillPhis_blocks as (c0, f) = Inr (c, f') \<Longrightarrow> same_graph f f'"
proof (induction as arbitrary: c0 f)
  case Nil
  then show ?case by (simp add: same_graph_refl)
next
  case (Cons a as)
  from Cons.prems obtain c1 f1 where s: "FillPhis (AddrBlock a) f = Inr (c1, f1)"
    and r: "FillPhis_blocks as (c0 \<or> c1, f1) = Inr (c, f')"
    by (auto split: sum.splits)
  from FillPhis_same_graph [OF s] Cons.IH [OF r] show ?case by (rule same_graph_trans)
qed

lemma fill_pass_same_graph:
  assumes "fill_pass f = Inr (c, f')"
  shows "same_graph f f'"
proof -
  from fill_pass_parts [OF assms] obtain c1 f1 c2
    where a: "FillPhis_blocks (map fst (block_map f)) (False, f) = Inr (c1, f1)"
      and b: "FillPhis ExitBlock f1 = Inr (c2, f')" by blast
  from FillPhis_blocks_same_graph [OF a] FillPhis_same_graph [OF b]
  show ?thesis by (rule same_graph_trans)
qed

lemma fill_loop_same_graph:
  assumes "fill_loop f = Some (Inr f')"
  shows "same_graph f f' \<and> fill_pass f' = Inr (False, f')"
  by (rule fill_loop_invariant [OF assms, where P = "same_graph f"])
     (auto intro: same_graph_refl same_graph_trans fill_pass_same_graph)

text \<open>A fill pass has no contract violation when every block of the map has its
  branch and the exit block exists.\<close>

lemma terminator_of_SomeD:
  "terminator_of f r \<noteq> None \<Longrightarrow> \<exists>blk. get_block f r = Some blk \<and> terminator blk \<noteq> None"
  by (cases "get_block f r") (simp_all add: terminator_of_def)

lemma FillPhis_blocks_ok:
  "\<forall>a\<in>set as. terminator_of f (AddrBlock a) \<noteq> None \<Longrightarrow>
   \<exists>cf. FillPhis_blocks as (c0, f) = Inr cf"
proof (induction as arbitrary: c0 f)
  case Nil
  then show ?case by simp
next
  case (Cons a as)
  from Cons.prems have "terminator_of f (AddrBlock a) \<noteq> None" by simp
  from terminator_of_SomeD [OF this] obtain blk
    where "get_block f (AddrBlock a) = Some blk" "terminator blk \<noteq> None" by blast
  with FillPhis_ok [of f "AddrBlock a" blk] obtain c1 f1
    where s: "FillPhis (AddrBlock a) f = Inr (c1, f1)" by blast
  from FillPhis_views(6) [OF s] Cons.prems
  have "\<forall>a\<in>set as. terminator_of f1 (AddrBlock a) \<noteq> None" by simp
  from Cons.IH [OF this, of "c0 \<or> c1"] s show ?case by simp
qed

lemma fill_pass_ok:
  assumes res: "\<forall>a\<in>set (map fst (block_map f)). terminator_of f (AddrBlock a) \<noteq> None"
    and exit: "map_option kind (get_block f ExitBlock) = Some EXIT"
  shows "\<exists>cf. fill_pass f = Inr cf"
proof -
  from FillPhis_blocks_ok [OF res, of False] obtain c1 f1
    where a: "FillPhis_blocks (map fst (block_map f)) (False, f) = Inr (c1, f1)" by auto
  from FillPhis_blocks_same_graph [OF a] exit
  have "map_option kind (get_block f1 ExitBlock) = Some EXIT" by (simp add: same_graph_def)
  then obtain xb where "get_block f1 ExitBlock = Some xb" "kind xb = EXIT" by auto
  with FillPhis_ok [of f1 ExitBlock xb] obtain c2 f2
    where b: "FillPhis ExitBlock f1 = Inr (c2, f2)" by blast
  from a b show ?thesis by (simp add: fill_pass_def)
qed

lemma fill_loop_resolved:
  assumes res: "\<forall>a\<in>set (map fst (block_map f)). terminator_of f (AddrBlock a) \<noteq> None"
    and exit: "map_option kind (get_block f ExitBlock) = Some EXIT"
  shows "\<exists>f'. fill_loop f = Some (Inr f')"
proof (rule fill_loop_ok [where P = "same_graph f"])
  show "same_graph f f" by (rule same_graph_refl)
next
  fix g c g' assume "same_graph f g" "fill_pass g = Inr (c, g')"
  then show "same_graph f g'" by (blast intro: same_graph_trans fill_pass_same_graph)
next
  fix g assume g: "same_graph f g"
  from g res have "\<forall>a\<in>set (map fst (block_map g)). terminator_of g (AddrBlock a) \<noteq> None"
    by (simp add: same_graph_def)
  moreover from g exit have "map_option kind (get_block g ExitBlock) = Some EXIT"
    by (simp add: same_graph_def)
  ultimately show "\<exists>cf. fill_pass g = Inr cf" by (rule fill_pass_ok)
qed

subsection \<open>Construction\<close>

lemma fresh_block_fields:
  "kind (fresh_block ident k) = k"
  "terminator (fresh_block ident k) = None"
  "predecessors (fresh_block ident k) = []"
  "regfile (fresh_block ident k) = RegFile_new ident"
  by (simp_all add: fresh_block_def)

lemma ArchBasicBlock_new_fields:
  assumes "ArchBasicBlock_new entries fn cc ident k = Inr blk"
  shows "kind blk = k" and "terminator blk = None" and "predecessors blk = []"
  using assms
  by (auto simp: ArchBasicBlock_new_def Let_def fresh_block_fields
      split: BlockKind.splits sum.splits)

lemma ArchBasicBlock_new_ok:
  assumes "FnType cc = Some (ret, params)"
  shows "\<exists>blk. ArchBasicBlock_new entries (LlvmFunction ret params) cc ident k = Inr blk"
proof (cases k)
  case DEFAULT
  then show ?thesis by (simp add: ArchBasicBlock_new_def)
next
  case ENTRY
  from Unpack_native_ok [OF assms] obtain st
    where "Unpack cc entries (regfile (fresh_block ident ENTRY)) (LlvmFunction ret params) (Some [])
      = Inr st" by blast
  with ENTRY show ?thesis by (cases st) (simp add: ArchBasicBlock_new_def)
next
  case EXIT
  from Pack_native_ok [OF assms] obtain st
    where "Pack cc entries (regfile (fresh_block ident EXIT)) (LlvmFunction ret params) (Some [])
      = Inr st" by blast
  with EXIT show ?thesis by (cases st) (simp add: ArchBasicBlock_new_def)
qed

text \<open>The exit block is built with a placeholder pending for the first register of the
  table.\<close>

lemma exit_block_pending_first:
  assumes "ArchBasicBlock_new (e # es) fn cc ExitBlock EXIT = Inr xb"
  shows "snd e \<in> set (empty_phis (regfile xb))"
proof -
  from assms obtain rf rv si
    where p: "Pack cc (e # es) (RegFile_new ExitBlock) fn (Some []) = Inr (rf, rv, si)"
      and xb: "empty_phis (regfile xb) = empty_phis rf"
    by (auto simp: ArchBasicBlock_new_def fresh_block_def emit_def split: sum.splits)
  from Pack_sptr [OF p] obtain rv0
    where "Pack_loop cc (sptr_of cc fn) (e # es) (RegFile_new ExitBlock, rv0, Some [])
      = Inr (rf, rv, si)" by blast
  then obtain rf1 rv1 si1
    where step: "Pack_entry cc (sptr_of cc fn) e (RegFile_new ExitBlock, rv0, Some [])
        = Inr (rf1, rv1, si1)"
      and rest: "Pack_loop cc (sptr_of cc fn) es (rf1, rv1, si1) = Inr (rf, rv, si)"
    by (auto split: sum.splits)
  from Pack_entry_empty_phis(2) [OF step] have "snd e \<in> set (empty_phis rf1)"
    by (simp add: RegFile_new_def)
  with Pack_loop_empty_phis [OF rest] show ?thesis by (auto simp: xb)
qed

lemma Function_new_fields:
  assumes "Function_new entries c = Inr f0"
  shows "cfg f0 = c" and "block_map f0 = []" and "exit_block f0 = None"
    and "entry_addr f0 = None" and "terminator (entry_block f0) = None"
    and "kind (entry_block f0) = ENTRY" and "predecessors (entry_block f0) = []"
    and "\<exists>ret params. llvm f0 = LlvmFunction ret params \<and> FnType (callconv c) = Some (ret, params)"
proof -
  from assms obtain ret params eb
    where t: "FnType (callconv c) = Some (ret, params)"
      and eb: "ArchBasicBlock_new entries (LlvmFunction ret params) (callconv c) EntryBlock ENTRY
        = Inr eb"
      and f0: "f0 = \<lparr>cfg = c, llvm = LlvmFunction ret params,
                     llvm_callconv = FnCallConv (callconv c), entry_block = eb,
                     exit_block = None, entry_addr = None, block_map = []\<rparr>"
    by (auto simp: Function_new_def Let_def split: option.splits sum.splits)
  note e = ArchBasicBlock_new_fields [OF eb]
  show "cfg f0 = c" "block_map f0 = []" "exit_block f0 = None" "entry_addr f0 = None"
    by (simp_all add: f0)
  show "terminator (entry_block f0) = None" "kind (entry_block f0) = ENTRY"
    "predecessors (entry_block f0) = []"
    using e by (simp_all add: f0)
  show "\<exists>ret params. llvm f0 = LlvmFunction ret params \<and> FnType (callconv c) = Some (ret, params)"
    using t by (simp add: f0)
qed

lemma Function_new_ok:
  "FnType (callconv c) \<noteq> None \<Longrightarrow> \<exists>f0. Function_new entries c = Inr f0"
proof -
  assume "FnType (callconv c) \<noteq> None"
  then obtain ret params where t: "FnType (callconv c) = Some (ret, params)" by auto
  from ArchBasicBlock_new_ok [OF t, of entries EntryBlock ENTRY] t show ?thesis
    by (auto simp: Function_new_def)
qed

text \<open>The blocks of a function that was built by calls of \<open>AddInst\<close> alone.\<close>

lemma built_block:
  assumes new: "Function_new entries c = Inr f0"
    and calls: "AddInst_calls entries lifter f0 calls = Inr f"
  shows "map_of (block_map f) a =
     (if a \<in> fst ` set calls
      then Some ((fresh_block (AddrBlock a) DEFAULT)\<lparr>regfile :=
                   foldl (\<lambda>rf i. lifter i rf) (RegFile_new (AddrBlock a))
                     (map snd (filter (\<lambda>c. fst c = a) calls))\<rparr>)
      else None)"
  using AddInst_calls_block [OF calls, of a] Function_new_fields(2) [OF new]
  by (simp add: fresh_block_fields)

lemma built_unresolved:
  assumes new: "Function_new entries c = Inr f0"
    and calls: "AddInst_calls entries lifter f0 calls = Inr f"
  shows "terminator_of f r = None"
proof (cases r)
  case EntryBlock
  with AddInst_calls_frame [OF calls] Function_new_fields(5) [OF new] show ?thesis
    by (simp add: terminator_of_def get_block_def)
next
  case ExitBlock
  with AddInst_calls_frame [OF calls] Function_new_fields(3) [OF new] show ?thesis
    by (simp add: terminator_of_def get_block_def)
next
  case (AddrBlock a)
  with built_block [OF new calls, of a] show ?thesis
    by (simp add: terminator_of_def get_block_def fresh_block_fields)
qed

subsection \<open>Lift on a function built by AddInst\<close>

lemma RemoveUnmodifiedStores_fields:
  "kind (RemoveUnmodifiedStores x e) = kind x"
  "terminator (RemoveUnmodifiedStores x e) = terminator x"
  "predecessors (RemoveUnmodifiedStores x e) = predecessors x"
  "empty_phis (regfile (RemoveUnmodifiedStores x e)) = empty_phis (regfile x)"
  by (simp_all add: RemoveUnmodifiedStores_def Let_def)

lemma RemoveUnmodifiedStores_same_graph:
  "same_graph f (update_block ExitBlock (\<lambda>x. RemoveUnmodifiedStores x e) f)"
proof -
  let ?g = "update_block ExitBlock (\<lambda>x. RemoveUnmodifiedStores x e) f"
  have k: "\<And>b. map_option kind (get_block ?g b) = map_option kind (get_block f b)"
    by (case_tac "get_block f b")
       (auto simp: get_block_update_block RemoveUnmodifiedStores_fields)
  have t: "\<And>b. terminator_of ?g b = terminator_of f b"
    by (case_tac "get_block f b")
       (auto simp: terminator_of_def get_block_update_block RemoveUnmodifiedStores_fields)
  have p: "\<And>b. predecessors_of ?g b = predecessors_of f b"
    by (case_tac "get_block f b")
       (auto simp: predecessors_of_def get_block_update_block RemoveUnmodifiedStores_fields)
  have e: "\<And>b. pending ?g b = pending f b"
    by (case_tac "get_block f b")
       (auto simp: pending_def get_block_update_block RemoveUnmodifiedStores_fields)
  show ?thesis
    by (simp add: same_graph_def k t p e keys_update_block update_block_fields)
qed

lemma Lift_built:
  assumes new: "Function_new entries c = Inr f0"
    and calls: "AddInst_calls entries lifter f0 (call # calls) = Inr f"
  shows "\<exists>f'. Lift entries verify f =
            Some (Inr (if verify_ir c \<and> verify f' then None else Some (llvm f0), f')) \<and>
     cfg f' = c \<and> llvm f' = llvm f0 \<and> map fst (block_map f') = map fst (block_map f) \<and>
     terminator_of f' EntryBlock = Some (Br (AddrBlock (fst call))) \<and>
     EntryBlock \<in> set (predecessors_of f' (AddrBlock (fst call))) \<and>
     (\<forall>a\<in>set (map fst (block_map f)).
        terminator_of f' (AddrBlock a) = map_option (next_branch f) (get_block f (AddrBlock a)))"
proof -
  let ?ea = "fst call"
  note n = Function_new_fields [OF new]
  note fr = AddInst_calls_frame [OF calls]
  from AddInst_calls_keys [OF calls] n(2)
  have keys: "set (map fst (block_map f)) = fst ` set (call # calls)"
    and dist: "distinct (map fst (block_map f))" by auto
  from keys have ne: "block_map f \<noteq> []" by auto
  from AddInst_calls_entry_addr [OF calls] n(2) have ea: "entry_addr f = Some ?ea" by simp
  from keys have ea_key: "?ea \<in> set (map fst (block_map f))" by simp
  from n(8) fr n(1) obtain ret params
    where fn: "llvm f = LlvmFunction ret params"
      and ty: "FnType (callconv (cfg f)) = Some (ret, params)" by auto
  from ArchBasicBlock_new_ok [OF ty, of entries ExitBlock EXIT] obtain xb
    where xb: "ArchBasicBlock_new entries (llvm f) (callconv (cfg f)) ExitBlock EXIT = Inr xb"
    by (auto simp: fn)
  note xf = ArchBasicBlock_new_fields [OF xb]
  let ?f1 = "f\<lparr>exit_block := Some xb\<rparr>"
  have g1: "\<And>r. get_block ?f1 r = (if r = ExitBlock then Some xb else get_block f r)"
    by (case_tac r) (simp_all add: get_block_def)
  have t1: "\<And>r. terminator_of ?f1 r = None"
    using built_unresolved [OF new calls] xf(2) by (simp add: terminator_of_def g1)
  have ex0: "\<And>a. a \<in> set (map fst (block_map f)) \<Longrightarrow> get_block f (AddrBlock a) \<noteq> None"
    using get_block_AddrBlock_keys by blast
  have ex1: "\<And>a. a \<in> set (map fst (block_map f)) \<Longrightarrow> get_block ?f1 (AddrBlock a) \<noteq> None"
    using ex0 by (simp add: g1)
  have e1: "get_block ?f1 EntryBlock = Some (entry_block f)" by (simp add: get_block_def)
  have et: "terminator (entry_block f) = None" using fr n(5) by simp
  from BranchTo_ok [OF e1 et ex1 [OF ea_key]] obtain f2
    where b: "BranchTo EntryBlock (AddrBlock ?ea) ?f1 = Inr f2" by blast
  note v2 = BranchTo_views [OF b]
  from BranchTo_frame [OF b]
  have k2: "map fst (block_map f2) = map fst (block_map f)" and fr2: "cfg f2 = cfg f" "llvm f2 = llvm f"
    by simp_all
  have ex2: "\<And>r. (get_block f2 r = None) = (get_block ?f1 r = None)"
    using v2(1) by (rule exists_iff_kind)
  have p2: "\<forall>a\<in>set (map fst (block_map f2)). get_block f2 (AddrBlock a) \<noteq> None
      \<and> terminator_of f2 (AddrBlock a) = None"
    using ex1 by (simp add: k2 ex2 v2(3) t1 del: set_map)
  have x2: "exit_block f2 \<noteq> None"
    using ex2 [of ExitBlock] by (simp add: get_block_def)
  have d2: "distinct (map fst (block_map f2))" using dist by (simp add: k2)
  from stitch_blocks_result [OF d2 p2 x2] obtain f3
    where s3: "stitch_blocks (map fst (block_map f2)) f2 = Inr f3"
      and k3: "map fst (block_map f3) = map fst (block_map f2)"
      and fr3: "cfg f3 = cfg f2" "llvm f3 = llvm f2"
      and kind3: "\<And>r. map_option kind (get_block f3 r) = map_option kind (get_block f2 r)"
      and term3: "\<And>r. r \<notin> AddrBlock ` set (map fst (block_map f2)) \<Longrightarrow>
          terminator_of f3 r = terminator_of f2 r"
      and new3: "\<And>a. a \<in> set (map fst (block_map f2)) \<Longrightarrow> terminator_of f3 (AddrBlock a)
          = map_option (next_branch f2) (get_block f2 (AddrBlock a))"
      and pred3: "\<And>r. prefix (predecessors_of f2 r) (predecessors_of f3 r)"
    by blast
  have reg2: "\<And>a. map_option regfile (get_block f2 (AddrBlock a))
      = map_option regfile (get_block f (AddrBlock a))"
    by (simp add: v2(2) g1)
  have nb: "\<And>a. map_option (next_branch f2) (get_block f2 (AddrBlock a))
      = map_option (next_branch f) (get_block f (AddrBlock a))"
    using k2 reg2 by (rule next_branch_map_option)
  have res3: "\<forall>a\<in>set (map fst (block_map f3)). terminator_of f3 (AddrBlock a) \<noteq> None"
  proof
    fix a assume "a \<in> set (map fst (block_map f3))"
    then have a: "a \<in> set (map fst (block_map f))" by (simp add: k3 k2)
    then have "get_block f (AddrBlock a) \<noteq> None" by (rule ex0)
    with new3 [of a] a show "terminator_of f3 (AddrBlock a) \<noteq> None" by (simp add: k2 nb)
  qed
  have x3: "map_option kind (get_block f3 ExitBlock) = Some EXIT"
    by (simp add: kind3 v2(1) g1 xf(1))
  from fill_loop_resolved [OF res3 x3] obtain f4 where l4: "fill_loop f3 = Some (Inr f4)" by blast
  from fill_loop_same_graph [OF l4] have sg4: "same_graph f3 f4"
    and fix4: "fill_pass f4 = Inr (False, f4)" by simp_all
  let ?f5 = "update_block ExitBlock (\<lambda>x. RemoveUnmodifiedStores x (entry_block f4)) f4"
  have sg5: "same_graph f4 ?f5" by (rule RemoveUnmodifiedStores_same_graph)
  from same_graph_trans [OF sg4 sg5] have sg: "same_graph f3 ?f5" .
  have lift: "Lift entries verify f =
      Some (Inr (if verify_ir (cfg ?f5) \<and> verify ?f5 then None else Some (llvm ?f5), ?f5))"
    using ne xb ea b s3 l4 by (simp add: Lift_def Let_def)
  have c5: "cfg ?f5 = c" "llvm ?f5 = llvm f0"
    using sg fr3 fr2 fr n(1) by (simp_all add: same_graph_def)
  have k5: "map fst (block_map ?f5) = map fst (block_map f)"
    using sg k3 k2 by (simp add: same_graph_def)
  have "EntryBlock \<notin> AddrBlock ` set (map fst (block_map f2))" by auto
  from term3 [OF this] have te3: "terminator_of f3 EntryBlock = Some (Br (AddrBlock ?ea))"
    by (simp add: v2(3))
  have te5: "terminator_of ?f5 EntryBlock = Some (Br (AddrBlock ?ea))"
    using sg te3 by (simp add: same_graph_def)
  from BranchTo_predecessor [OF b] pred3 [of "AddrBlock ?ea"]
  have "EntryBlock \<in> set (predecessors_of f3 (AddrBlock ?ea))"
    by (meson set_mono_prefix subsetD)
  then have pe5: "EntryBlock \<in> set (predecessors_of ?f5 (AddrBlock ?ea))"
    using sg by (simp add: same_graph_def)
  have tb5: "\<forall>a\<in>set (map fst (block_map f)).
        terminator_of ?f5 (AddrBlock a) = map_option (next_branch f) (get_block f (AddrBlock a))"
    using sg new3 by (simp add: same_graph_def k2 nb del: set_map)
  from lift c5 k5 te5 pe5 tb5 show ?thesis by auto
qed

subsection \<open>The example function\<close>

lemma example_new: "\<exists>f0. Function_new cpu_struct_entries example_cfg = Inr f0"
  by (rule Function_new_ok) (simp add: example_cfg_def FnType_def)

lemma ResolveAddr_ConstantInt:
  "ResolveAddr f (ConstantInt a) =
     (if a \<in> set (map fst (block_map f)) then AddrBlock a else ExitBlock)"
proof (cases "map_of (block_map f) a")
  case None
  then have "a \<notin> set (map fst (block_map f))" by (simp add: map_of_eq_None_iff)
  with None show ?thesis by (simp add: ResolveAddr_def dyn_cast_ConstantInt_def del: set_map)
next
  case (Some blk)
  then have "a \<in> set (map fst (block_map f))"
    by (metis map_of_eq_None_iff option.distinct(1) set_map)
  with Some show ?thesis by (simp add: ResolveAddr_def dyn_cast_ConstantInt_def del: set_map)
qed

lemma example_keys:
  assumes "Function_new entries c = Inr f0"
    and "AddInst_calls entries lifter f0 example_calls = Inr f"
  shows "set (map fst (block_map f)) = {0x100, 0x110}"
  using AddInst_calls_keys [OF assms(2)] Function_new_fields(2) [OF assms(1)]
  by (auto simp: example_calls_def)

text \<open>The state of the example function when \<open>Lift\<close> enters the fill loop: the exit
  block exists, the entry block branches to the block of the entry address, and every
  block of the map has its branch. The first pass of the loop fills the placeholder
  of the instruction pointer at the exit block, whose one predecessor has written the
  register.\<close>

lemma example_built:
  assumes n: "Function_new entries c = Inr f0"
    and f: "AddInst_calls entries write_next_rip f0 example_calls = Inr f"
  shows "f = f0\<lparr>entry_addr := Some 0x100,
     block_map :=
       [(0x100, (fresh_block (AddrBlock 0x100) DEFAULT)\<lparr>regfile :=
           write_next_rip (SelectInst (OtherValue 1) (ConstantInt 0x110) (OtherValue 2))
             (RegFile_new (AddrBlock 0x100))\<rparr>),
        (0x110, (fresh_block (AddrBlock 0x110) DEFAULT)\<lparr>regfile :=
           write_next_rip (ConstantInt 0x100) (RegFile_new (AddrBlock 0x110))\<rparr>)]\<rparr>"
  using f Function_new_fields(2) [OF n]
  by (auto simp: example_calls_def AddInst_def ArchBasicBlock_new_def Let_def update_block_def
      fresh_block_def)

lemma example_stitched:
  assumes n: "Function_new entries c = Inr f0"
    and f: "AddInst_calls entries write_next_rip f0 example_calls = Inr f"
    and x: "ArchBasicBlock_new entries fn cc ExitBlock EXIT = Inr xb"
  shows "\<exists>f2. BranchTo EntryBlock (AddrBlock 0x100) (f\<lparr>exit_block := Some xb\<rparr>) = Inr f2 \<and>
     stitch_blocks (map fst (block_map f2)) f2 =
       Inr (f0\<lparr>entry_block := (entry_block f0)\<lparr>terminator := Some (Br (AddrBlock 0x100))\<rparr>,
              exit_block := Some (xb\<lparr>predecessors := [AddrBlock 0x100]\<rparr>),
              entry_addr := Some 0x100,
              block_map :=
                [(0x100, (fresh_block (AddrBlock 0x100) DEFAULT)\<lparr>regfile :=
                    write_next_rip (SelectInst (OtherValue 1) (ConstantInt 0x110) (OtherValue 2))
                      (RegFile_new (AddrBlock 0x100)),
                    terminator := Some (CondBr (OtherValue 1) (AddrBlock 0x110) ExitBlock),
                    predecessors := [EntryBlock, AddrBlock 0x110]\<rparr>),
                 (0x110, (fresh_block (AddrBlock 0x110) DEFAULT)\<lparr>regfile :=
                    write_next_rip (ConstantInt 0x100) (RegFile_new (AddrBlock 0x110)),
                    terminator := Some (Br (AddrBlock 0x100)),
                    predecessors := [AddrBlock 0x100]\<rparr>)]\<rparr>)"
  using Function_new_fields(5) [OF n] ArchBasicBlock_new_fields(2,3) [OF x]
  by (simp add: example_built [OF n f] BranchTo_def get_block_def add_predecessor_def
      update_block_def stitch_block_def NextRip_def GetReg_def write_next_rip_def SetReg_def
      fresh_block_def RegFile_new_def dyn_cast_SelectInst_def ResolveAddr_def
      dyn_cast_ConstantInt_def BranchTo_cond_def Let_def)

lemma example_first_pass:
  assumes x: "ArchBasicBlock_new cpu_struct_entries fn cc ExitBlock EXIT = Inr xb"
    and f3: "f3 = f0\<lparr>entry_block := eb,
              exit_block := Some (xb\<lparr>predecessors := [AddrBlock 0x100]\<rparr>),
              entry_addr := Some 0x100,
              block_map :=
                [(0x100, (fresh_block (AddrBlock 0x100) DEFAULT)\<lparr>regfile :=
                    write_next_rip (SelectInst (OtherValue 1) (ConstantInt 0x110) (OtherValue 2))
                      (RegFile_new (AddrBlock 0x100)),
                    terminator := Some (CondBr (OtherValue 1) (AddrBlock 0x110) ExitBlock),
                    predecessors := [EntryBlock, AddrBlock 0x110]\<rparr>),
                 (0x110, (fresh_block (AddrBlock 0x110) DEFAULT)\<lparr>regfile :=
                    write_next_rip (ConstantInt 0x100) (RegFile_new (AddrBlock 0x110)),
                    terminator := Some (Br (AddrBlock 0x100)),
                    predecessors := [AddrBlock 0x100]\<rparr>)]\<rparr>"
  shows "\<exists>f'. fill_pass f3 = Inr (True, f')"
    and "\<exists>g. fill_loop f3 = Some (Inr g)"
proof -
  let ?key = "(LLReg LL_RT_IP 0, IntFacet 64)"
  let ?xb = "xb\<lparr>predecessors := [AddrBlock 0x100]\<rparr>"
  have blocks: "\<forall>a\<in>set (map fst (block_map f3)). \<exists>blk. get_block f3 (AddrBlock a) = Some blk \<and>
      empty_phis (regfile blk) = [] \<and> terminator blk \<noteq> None"
    by (simp add: f3 get_block_def write_next_rip_def SetReg_def RegFile_new_def)
  have g: "get_block f3 ExitBlock = Some ?xb" by (simp add: f3 get_block_def)
  have k: "kind ?xb = EXIT" using ArchBasicBlock_new_fields(1) [OF x] by simp
  from exit_block_pending_first [OF x [unfolded cpu_struct_entries_def append_Cons append_Nil]]
  have key: "?key \<in> set (empty_phis (regfile ?xb))" by simp
  have fl: "fillable f3 ?xb ?key"
    by (simp add: fillable_def pred_value_def f3 get_block_def write_next_rip_def SetReg_def
        RegFile_new_def is_pending_def)
  from blocks g k key fl show "\<exists>f'. fill_pass f3 = Inr (True, f')"
    by (rule fill_pass_exit_fills)
  show "\<exists>g. fill_loop f3 = Some (Inr g)"
  proof (rule fill_loop_resolved)
    from blocks
    show "\<forall>a\<in>set (map fst (block_map f3)). terminator_of f3 (AddrBlock a) \<noteq> None"
      by (auto simp: terminator_of_def)
    show "map_option kind (get_block f3 ExitBlock) = Some EXIT" using g k by simp
  qed
qed

section \<open>Properties of AddInst, ResolveAddr and Lift\<close>

text \<open>
  C2. Address resolution: a value that is a constant integer whose zero-extended value
  is a key of the block map resolves to the block of that key, which exists; every
  other value (not a constant, or a constant that is no key) resolves to the exit
  block.
\<close>

theorem ResolveAddr_policy:
  "(addr = ConstantInt a \<and> a \<in> set (map fst (block_map f)) \<longrightarrow>
      ResolveAddr f addr = AddrBlock a \<and> get_block f (AddrBlock a) \<noteq> None) \<and>
   ((\<forall>a. addr = ConstantInt a \<longrightarrow> a \<notin> set (map fst (block_map f))) \<longrightarrow>
      ResolveAddr f addr = ExitBlock)"
proof (intro conjI impI)
  assume h: "addr = ConstantInt a \<and> a \<in> set (map fst (block_map f))"
  then have "get_block f (AddrBlock a) \<noteq> None" using get_block_AddrBlock_keys by blast
  then show "ResolveAddr f addr = AddrBlock a"
    using h by (auto simp: ResolveAddr_def dyn_cast_ConstantInt_def get_block_def)
next
  assume h: "addr = ConstantInt a \<and> a \<in> set (map fst (block_map f))"
  then show "get_block f (AddrBlock a) \<noteq> None" using get_block_AddrBlock_keys by blast
next
  assume h: "\<forall>a. addr = ConstantInt a \<longrightarrow> a \<notin> set (map fst (block_map f))"
  show "ResolveAddr f addr = ExitBlock"
  proof (cases "dyn_cast_ConstantInt addr")
    case None
    then show ?thesis by (simp add: ResolveAddr_def)
  next
    case (Some a)
    then have "addr = ConstantInt a"
      by (cases addr) (simp_all add: dyn_cast_ConstantInt_def)
    with h have "a \<notin> set (map fst (block_map f))" by blast
    then have "map_of (block_map f) a = None" by (simp add: map_of_eq_None_iff)
    with Some show ?thesis by (simp add: ResolveAddr_def)
  qed
qed

theorem ResolveAddr_policy_witness:
  "\<exists>f0 f. Function_new cpu_struct_entries example_cfg = Inr f0 \<and>
     AddInst_calls cpu_struct_entries write_next_rip f0 example_calls = Inr f \<and>
     ResolveAddr f (ConstantInt 0x110) = AddrBlock 0x110 \<and>
     get_block f (AddrBlock 0x110) \<noteq> None \<and>
     ResolveAddr f (ConstantInt 0x120) = ExitBlock \<and>
     ResolveAddr f (OtherValue 2) = ExitBlock"
proof -
  from example_new obtain f0 where n: "Function_new cpu_struct_entries example_cfg = Inr f0"
    by blast
  from AddInst_calls_ok obtain f
    where f: "AddInst_calls cpu_struct_entries write_next_rip f0 example_calls = Inr f" by blast
  note k = example_keys [OF n f]
  from ResolveAddr_policy [of "ConstantInt 0x110" "0x110" f] k
  have a: "ResolveAddr f (ConstantInt 0x110) = AddrBlock 0x110"
    "get_block f (AddrBlock 0x110) \<noteq> None" by simp_all
  from ResolveAddr_policy [of "ConstantInt 0x120" "0x120" f] k
  have b: "ResolveAddr f (ConstantInt 0x120) = ExitBlock" by simp
  from ResolveAddr_policy [of "OtherValue 2" 0 f]
  have c: "ResolveAddr f (OtherValue 2) = ExitBlock" by simp
  from n f a b c show ?thesis by blast
qed

text \<open>
  C1. On a function that was constructed and then received any sequence of \<open>AddInst\<close>
  calls, \<open>Lift\<close> returns (it neither fails on a contract violation nor runs forever),
  and it returns null if and only if no instruction was added, or verification is
  enabled in the configuration and the verifier reports the produced function broken;
  in every other case it returns the native function of the object.
\<close>

theorem Lift_returns_null_iff:
  assumes new: "Function_new entries c = Inr f0"
  shows "\<exists>f r f'. AddInst_calls entries lifter f0 calls = Inr f \<and>
     Lift entries verify f = Some (Inr (r, f')) \<and>
     (r = None \<longleftrightarrow> calls = [] \<or> (verify_ir c \<and> verify f')) \<and>
     (r \<noteq> None \<longrightarrow> r = Some (llvm f0))"
proof (cases calls)
  case Nil
  have "block_map f0 = []" by (rule Function_new_fields(2) [OF new])
  then have "Lift entries verify f0 = Some (Inr (None, f0))" by (simp add: Lift_def)
  with Nil show ?thesis by simp
next
  case (Cons call rest)
  from AddInst_calls_ok [of entries lifter f0 calls] obtain f
    where f: "AddInst_calls entries lifter f0 calls = Inr f" by blast
  from Lift_built [OF new f [unfolded Cons], of verify] obtain f'
    where "Lift entries verify f =
            Some (Inr (if verify_ir c \<and> verify f' then None else Some (llvm f0), f'))"
    by blast
  with f Cons show ?thesis by auto
qed

theorem Lift_returns_null_iff_witness:
  "\<exists>f0 f r f'. Function_new cpu_struct_entries example_cfg = Inr f0 \<and>
     AddInst_calls cpu_struct_entries write_next_rip f0 example_calls = Inr f \<and>
     Lift cpu_struct_entries (\<lambda>f. False) f = Some (Inr (r, f')) \<and> r = Some (llvm f0)"
proof -
  from example_new obtain f0 where n: "Function_new cpu_struct_entries example_cfg = Inr f0"
    by blast
  have ne: "example_calls \<noteq> []" by (simp add: example_calls_def)
  from Lift_returns_null_iff [OF n, of write_next_rip example_calls "\<lambda>f. False"] ne n
  show ?thesis by auto
qed

text \<open>
  C7. During \<open>Lift\<close>, every block of the block map is stitched by its own symbolic
  next instruction pointer: when that value is a select, the block gets a conditional
  branch on the condition of the select, to the resolution of the true value and the
  resolution of the false value; otherwise it gets one unconditional branch to the
  resolution of the value.
\<close>

theorem Lift_stitches_blocks:
  assumes new: "Function_new entries c = Inr f0"
    and calls: "AddInst_calls entries lifter f0 (call # calls) = Inr f"
  shows "\<exists>r f'. Lift entries verify f = Some (Inr (r, f')) \<and>
     map fst (block_map f') = map fst (block_map f) \<and>
     (\<forall>a blk. map_of (block_map f) a = Some blk \<longrightarrow>
        (case dyn_cast_SelectInst (fst (NextRip blk)) of
           Some (cond, tv, fv) \<Rightarrow>
             terminator_of f' (AddrBlock a)
               = Some (CondBr cond (ResolveAddr f' tv) (ResolveAddr f' fv))
         | None \<Rightarrow>
             terminator_of f' (AddrBlock a) = Some (Br (ResolveAddr f' (fst (NextRip blk))))))"
proof -
  from Lift_built [OF new calls, of verify] obtain f'
    where l: "Lift entries verify f =
            Some (Inr (if verify_ir c \<and> verify f' then None else Some (llvm f0), f'))"
      and k: "map fst (block_map f') = map fst (block_map f)"
      and t: "\<forall>a\<in>set (map fst (block_map f)).
        terminator_of f' (AddrBlock a) = map_option (next_branch f) (get_block f (AddrBlock a))"
    by blast
  have r: "\<And>v. ResolveAddr f' v = ResolveAddr f v" using k by (rule ResolveAddr_keys)
  have "\<forall>a blk. map_of (block_map f) a = Some blk \<longrightarrow>
        (case dyn_cast_SelectInst (fst (NextRip blk)) of
           Some (cond, tv, fv) \<Rightarrow>
             terminator_of f' (AddrBlock a)
               = Some (CondBr cond (ResolveAddr f' tv) (ResolveAddr f' fv))
         | None \<Rightarrow>
             terminator_of f' (AddrBlock a) = Some (Br (ResolveAddr f' (fst (NextRip blk)))))"
  proof (intro allI impI)
    fix a blk assume m: "map_of (block_map f) a = Some blk"
    then have "a \<in> set (map fst (block_map f))" by (metis map_of_eq_None_iff option.distinct(1) set_map)
    with t m have "terminator_of f' (AddrBlock a) = Some (next_branch f blk)"
      by (simp add: get_block_def del: set_map)
    then show "case dyn_cast_SelectInst (fst (NextRip blk)) of
           Some (cond, tv, fv) \<Rightarrow>
             terminator_of f' (AddrBlock a)
               = Some (CondBr cond (ResolveAddr f' tv) (ResolveAddr f' fv))
         | None \<Rightarrow>
             terminator_of f' (AddrBlock a) = Some (Br (ResolveAddr f' (fst (NextRip blk))))"
      by (simp add: next_branch_def r split: option.splits)
  qed
  with l k show ?thesis by blast
qed

theorem Lift_stitches_blocks_witness:
  "\<exists>f0 f r f'. Function_new cpu_struct_entries example_cfg = Inr f0 \<and>
     AddInst_calls cpu_struct_entries write_next_rip f0 example_calls = Inr f \<and>
     Lift cpu_struct_entries (\<lambda>f. False) f = Some (Inr (r, f')) \<and>
     terminator_of f' (AddrBlock 0x100)
       = Some (CondBr (OtherValue 1) (AddrBlock 0x110) ExitBlock) \<and>
     terminator_of f' (AddrBlock 0x110) = Some (Br (AddrBlock 0x100))"
proof -
  from example_new obtain f0 where n: "Function_new cpu_struct_entries example_cfg = Inr f0"
    by blast
  from AddInst_calls_ok obtain f
    where f: "AddInst_calls cpu_struct_entries write_next_rip f0 example_calls = Inr f" by blast
  note k = example_keys [OF n f]
  note f1 = f [unfolded example_calls_def]
  from Lift_stitches_blocks [OF n f1, of "\<lambda>f. False"] obtain r f'
    where l: "Lift cpu_struct_entries (\<lambda>f. False) f = Some (Inr (r, f'))"
      and k': "map fst (block_map f') = map fst (block_map f)"
      and t: "\<And>a blk. map_of (block_map f) a = Some blk \<Longrightarrow>
        (case dyn_cast_SelectInst (fst (NextRip blk)) of
           Some (cond, tv, fv) \<Rightarrow>
             terminator_of f' (AddrBlock a)
               = Some (CondBr cond (ResolveAddr f' tv) (ResolveAddr f' fv))
         | None \<Rightarrow>
             terminator_of f' (AddrBlock a) = Some (Br (ResolveAddr f' (fst (NextRip blk)))))"
    by blast
  have ra: "ResolveAddr f' (ConstantInt 0x110) = AddrBlock 0x110"
    "ResolveAddr f' (ConstantInt 0x100) = AddrBlock 0x100"
    "ResolveAddr f' (OtherValue 2) = ExitBlock"
    using k by (simp_all add: ResolveAddr_ConstantInt k' del: set_map)
      (simp add: ResolveAddr_def dyn_cast_ConstantInt_def)
  from built_block [OF n f, of "0x100"]
  have b1: "map_of (block_map f) 0x100 =
      Some ((fresh_block (AddrBlock 0x100) DEFAULT)\<lparr>regfile :=
         write_next_rip (SelectInst (OtherValue 1) (ConstantInt 0x110) (OtherValue 2))
           (RegFile_new (AddrBlock 0x100))\<rparr>)"
    by (simp add: example_calls_def)
  from built_block [OF n f, of "0x110"]
  have b2: "map_of (block_map f) 0x110 =
      Some ((fresh_block (AddrBlock 0x110) DEFAULT)\<lparr>regfile :=
         write_next_rip (ConstantInt 0x100) (RegFile_new (AddrBlock 0x110))\<rparr>)"
    by (simp add: example_calls_def)
  have nr: "\<And>v b. fst (NextRip ((fresh_block b DEFAULT)\<lparr>regfile :=
         write_next_rip v (RegFile_new b)\<rparr>)) = v"
    by (simp add: NextRip_def GetReg_def write_next_rip_def SetReg_def)
  from t [OF b1] have "terminator_of f' (AddrBlock 0x100)
       = Some (CondBr (OtherValue 1) (AddrBlock 0x110) ExitBlock)"
    by (simp add: nr dyn_cast_SelectInst_def ra)
  moreover from t [OF b2] have "terminator_of f' (AddrBlock 0x110) = Some (Br (AddrBlock 0x100))"
    by (simp add: nr dyn_cast_SelectInst_def ra)
  ultimately show ?thesis using n f l by blast
qed

text \<open>
  C8. For a constructed function and every non-empty sequence of \<open>AddInst\<close> calls: the
  address of the first call is the recorded entry address, whatever calls follow; the
  block map has one block per address, created at the first use of the address, and
  the block of an address has received the instructions of all calls for that address
  in call order; and \<open>Lift\<close> gives the ENTRY block an unconditional branch to the block
  at the recorded entry address, which has ENTRY among its predecessors.
\<close>

theorem AddInst_entry_and_blocks:
  assumes new: "Function_new entries c = Inr f0"
  shows "\<exists>f. AddInst_calls entries lifter f0 (call # calls) = Inr f \<and>
     entry_addr f = Some (fst call) \<and>
     distinct (map fst (block_map f)) \<and>
     set (map fst (block_map f)) = fst ` set (call # calls) \<and>
     (\<forall>a\<in>fst ` set (call # calls).
        map_of (block_map f) a =
          Some ((fresh_block (AddrBlock a) DEFAULT)\<lparr>regfile :=
                  foldl (\<lambda>rf i. lifter i rf) (RegFile_new (AddrBlock a))
                    (map snd (filter (\<lambda>c. fst c = a) (call # calls)))\<rparr>)) \<and>
     (\<exists>r f'. Lift entries verify f = Some (Inr (r, f')) \<and>
        terminator_of f' EntryBlock = Some (Br (AddrBlock (fst call))) \<and>
        EntryBlock \<in> set (predecessors_of f' (AddrBlock (fst call))))"
proof -
  from AddInst_calls_ok [of entries lifter f0 "call # calls"] obtain f
    where f: "AddInst_calls entries lifter f0 (call # calls) = Inr f" by blast
  note n = Function_new_fields [OF new]
  from AddInst_calls_entry_addr [OF f] n(2) have "entry_addr f = Some (fst call)" by simp
  moreover from AddInst_calls_keys [OF f] n(2)
  have "distinct (map fst (block_map f))"
    and "set (map fst (block_map f)) = fst ` set (call # calls)" by auto
  moreover have "\<forall>a\<in>fst ` set (call # calls).
        map_of (block_map f) a =
          Some ((fresh_block (AddrBlock a) DEFAULT)\<lparr>regfile :=
                  foldl (\<lambda>rf i. lifter i rf) (RegFile_new (AddrBlock a))
                    (map snd (filter (\<lambda>c. fst c = a) (call # calls)))\<rparr>)"
    using built_block [OF new f] by simp
  moreover from Lift_built [OF new f, of verify]
  have "\<exists>r f'. Lift entries verify f = Some (Inr (r, f')) \<and>
        terminator_of f' EntryBlock = Some (Br (AddrBlock (fst call))) \<and>
        EntryBlock \<in> set (predecessors_of f' (AddrBlock (fst call)))"
    by blast
  ultimately show ?thesis using f by blast
qed

theorem AddInst_entry_and_blocks_witness:
  "\<exists>f0 f r f'. Function_new cpu_struct_entries example_cfg = Inr f0 \<and>
     AddInst_calls cpu_struct_entries write_next_rip f0 example_calls = Inr f \<and>
     entry_addr f = Some 0x100 \<and>
     set (map fst (block_map f)) = {0x100, 0x110} \<and>
     Lift cpu_struct_entries (\<lambda>f. False) f = Some (Inr (r, f')) \<and>
     terminator_of f' EntryBlock = Some (Br (AddrBlock 0x100)) \<and>
     EntryBlock \<in> set (predecessors_of f' (AddrBlock 0x100))"
proof -
  from example_new obtain f0 where n: "Function_new cpu_struct_entries example_cfg = Inr f0"
    by blast
  from AddInst_entry_and_blocks [OF n, of write_next_rip
      "(0x100, SelectInst (OtherValue 1) (ConstantInt 0x110) (OtherValue 2))"
      "[(0x110, ConstantInt 0x100)]" "\<lambda>f. False"] n
  show ?thesis by (auto simp: example_calls_def)
qed

text \<open>
  C5. The fill loop of \<open>Lift\<close> returns for every state of the function. A full pass
  over the blocks of the map and the exit block either reports a change, and then the
  number of pending placeholders has gone down, or reports none, and then it has left
  the state as it was; no placeholder is pending after a pass that was not pending
  before it; the loop runs another pass after a pass that reported a change and ends
  with the state of the first pass that reported none, on which a further pass
  changes nothing.
\<close>

theorem fill_loop_terminates_monotone:
  "(\<exists>r. fill_loop f = Some r) \<and>
   (fill_pass f = Inr (changed, f') \<longrightarrow>
      (changed \<longrightarrow> total_pending f' < total_pending f) \<and>
      (\<not> changed \<longrightarrow> f' = f) \<and>
      (\<forall>b. set (pending f' b) \<subseteq> set (pending f b)) \<and>
      fill_loop f = (if changed then fill_loop f' else Some (Inr f'))) \<and>
   (fill_loop f = Some (Inr g) \<longrightarrow>
      fill_pass g = Inr (False, g) \<and> (\<forall>b. set (pending g b) \<subseteq> set (pending f b)))"
proof (intro conjI impI)
  show "\<exists>r. fill_loop f = Some r" by (rule fill_loop_terminates)
next
  assume p: "fill_pass f = Inr (changed, f')" and "changed"
  with fill_pass_measure [OF p] show "total_pending f' < total_pending f" by simp
next
  assume p: "fill_pass f = Inr (changed, f')" and "\<not> changed"
  with fill_pass_unchanged [of f f'] show "f' = f" by simp
next
  assume p: "fill_pass f = Inr (changed, f')"
  from fill_pass_same_graph [OF p] show "\<forall>b. set (pending f' b) \<subseteq> set (pending f b)"
    by (simp add: same_graph_def)
next
  assume p: "fill_pass f = Inr (changed, f')"
  then show "fill_loop f = (if changed then fill_loop f' else Some (Inr f'))"
    by (subst fill_loop.simps) simp
next
  assume l: "fill_loop f = Some (Inr g)"
  from fill_loop_same_graph [OF l] show "fill_pass g = Inr (False, g)" by simp
next
  assume l: "fill_loop f = Some (Inr g)"
  from fill_loop_same_graph [OF l] show "\<forall>b. set (pending g b) \<subseteq> set (pending f b)"
    by (simp add: same_graph_def)
qed

theorem fill_loop_terminates_monotone_witness:
  "\<exists>f0 f xb f2 f3 f' g.
     Function_new cpu_struct_entries example_cfg = Inr f0 \<and>
     AddInst_calls cpu_struct_entries write_next_rip f0 example_calls = Inr f \<and>
     length (block_map f) \<noteq> 0 \<and>
     ArchBasicBlock_new cpu_struct_entries (llvm f) (callconv (cfg f)) ExitBlock EXIT = Inr xb \<and>
     entry_addr (f\<lparr>exit_block := Some xb\<rparr>) = Some 0x100 \<and>
     BranchTo EntryBlock (AddrBlock 0x100) (f\<lparr>exit_block := Some xb\<rparr>) = Inr f2 \<and>
     stitch_blocks (map fst (block_map f2)) f2 = Inr f3 \<and>
     fill_pass f3 = Inr (True, f') \<and>
     total_pending f' < total_pending f3 \<and>
     fill_loop f3 = fill_loop f' \<and>
     fill_loop f3 = Some (Inr g) \<and>
     fill_pass g = Inr (False, g) \<and>
     Lift cpu_struct_entries (\<lambda>f. False) f =
       Some (Inr (Some (llvm g),
                  update_block ExitBlock (\<lambda>x. RemoveUnmodifiedStores x (entry_block g)) g))"
proof -
  from example_new obtain f0 where n: "Function_new cpu_struct_entries example_cfg = Inr f0"
    by blast
  from AddInst_calls_ok obtain f
    where f: "AddInst_calls cpu_struct_entries write_next_rip f0 example_calls = Inr f" by blast
  note b = example_built [OF n f]
  from b have ne: "length (block_map f) \<noteq> 0" by simp
  from Function_new_fields(8) [OF n] AddInst_calls_frame [OF f] obtain ret params
    where fn: "llvm f = LlvmFunction ret params"
      and ty: "FnType (callconv (cfg f)) = Some (ret, params)"
    by (auto simp: Function_new_fields(1) [OF n])
  from ArchBasicBlock_new_ok [OF ty, of cpu_struct_entries ExitBlock EXIT] obtain xb
    where xb: "ArchBasicBlock_new cpu_struct_entries (llvm f) (callconv (cfg f)) ExitBlock EXIT
        = Inr xb"
    by (auto simp: fn)
  from b have ea: "entry_addr (f\<lparr>exit_block := Some xb\<rparr>) = Some 0x100" by simp
  from example_stitched [OF n f xb] obtain f2 f3
    where br: "BranchTo EntryBlock (AddrBlock 0x100) (f\<lparr>exit_block := Some xb\<rparr>) = Inr f2"
      and st: "stitch_blocks (map fst (block_map f2)) f2 = Inr f3"
      and f3: "f3 = f0\<lparr>entry_block := (entry_block f0)\<lparr>terminator := Some (Br (AddrBlock 0x100))\<rparr>,
              exit_block := Some (xb\<lparr>predecessors := [AddrBlock 0x100]\<rparr>),
              entry_addr := Some 0x100,
              block_map :=
                [(0x100, (fresh_block (AddrBlock 0x100) DEFAULT)\<lparr>regfile :=
                    write_next_rip (SelectInst (OtherValue 1) (ConstantInt 0x110) (OtherValue 2))
                      (RegFile_new (AddrBlock 0x100)),
                    terminator := Some (CondBr (OtherValue 1) (AddrBlock 0x110) ExitBlock),
                    predecessors := [EntryBlock, AddrBlock 0x110]\<rparr>),
                 (0x110, (fresh_block (AddrBlock 0x110) DEFAULT)\<lparr>regfile :=
                    write_next_rip (ConstantInt 0x100) (RegFile_new (AddrBlock 0x110)),
                    terminator := Some (Br (AddrBlock 0x100)),
                    predecessors := [AddrBlock 0x100]\<rparr>)]\<rparr>"
    by auto
  from example_first_pass(1) [OF xb f3] obtain f' where p: "fill_pass f3 = Inr (True, f')"
    by blast
  from example_first_pass(2) [OF xb f3] obtain g where l: "fill_loop f3 = Some (Inr g)"
    by blast
  from fill_loop_terminates_monotone [of f3 True f' g] p l
  have m: "total_pending f' < total_pending f3"
    and c: "fill_loop f3 = fill_loop f'"
    and e: "fill_pass g = Inr (False, g)" by simp_all
  have v: "llvm (update_block ExitBlock
      (\<lambda>x. RemoveUnmodifiedStores x (entry_block g)) g) = llvm g"
    by (simp add: update_block_fields)
  have lift: "Lift cpu_struct_entries (\<lambda>f. False) f =
       Some (Inr (Some (llvm g),
                  update_block ExitBlock (\<lambda>x. RemoveUnmodifiedStores x (entry_block g)) g))"
    using ne xb ea br st l v by (simp add: Lift_def Let_def)
  from n f ne xb ea br st p m c l e lift show ?thesis by blast
qed

end
